theory Spec2Isabelle
  imports Complex_Main "HOL-Library.AList" "HOL-Library.Sublist"
begin

section \<open>Flattening StatsBomb events into a table\<close>

text \<open>
  The notebook \<^verbatim>\<open>database_population_and_querying.ipynb\<close> turns a list of decoded
  JSON events into a pandas DataFrame, renames its columns, splits every column whose
  name contains \<^verbatim>\<open>location\<close> into an \<^verbatim>\<open>x\<close> and a \<^verbatim>\<open>y\<close> column, and removes the
  location columns and three named columns. This theory embeds those cells.
\<close>

subsection \<open>Python values\<close>

text \<open>
  A decoded JSON value. Numbers are exact rationals: the notebook does no arithmetic on
  them, it only moves them. \<open>JNull\<close> stands for every missing value of pandas
  (\<^verbatim>\<open>None\<close> and \<^verbatim>\<open>NaN\<close> alike). A dict is the list of its items in insertion order.
\<close>

datatype json =
    JNull
  | JBool bool
  | JNum rat
  | JStr string
  | JList "json list"
  | JDict "(string \<times> json) list"

type_synonym dict = "(string \<times> json) list"

type_synonym event = "(string \<times> json) list"

fun is_dict :: "json \<Rightarrow> bool" where
  "is_dict (JDict kvs) = True"
| "is_dict v = False"

fun is_list :: "json \<Rightarrow> bool" where
  "is_list (JList xs) = True"
| "is_list v = False"

fun is_scalar :: "json \<Rightarrow> bool" where
  "is_scalar (JList xs) = False"
| "is_scalar (JDict kvs) = False"
| "is_scalar v = True"

subsection \<open>Strings\<close>

text \<open>\<^verbatim>\<open>sub in s\<close>: \<open>sub\<close> occurs in \<open>s\<close> as a contiguous substring.\<close>

fun str_contains :: "string \<Rightarrow> string \<Rightarrow> bool" where
  "str_contains sub [] = (sub = [])"
| "str_contains sub (c # cs) = (prefix sub (c # cs) \<or> str_contains sub cs)"

text \<open>
  \<^verbatim>\<open>s.replace(old, new)\<close>: every occurrence of \<open>old\<close>, found from the left and not
  overlapping an earlier one, is replaced by \<open>new\<close>. For the empty \<open>old\<close> Python puts
  \<open>new\<close> before every character and at the end.
\<close>

function str_replace :: "string \<Rightarrow> string \<Rightarrow> string \<Rightarrow> string" where
  "str_replace old new s =
     (if old = [] then new @ concat (map (\<lambda>c. c # new) s)
      else if s = [] then []
      else if prefix old s then new @ str_replace old new (drop (length old) s)
      else hd s # str_replace old new (tl s))"
  by pat_completeness auto
termination
  by (relation "measure (\<lambda>(old, new, s). length s)") auto

declare str_replace.simps [simp del]

subsection \<open>Data frames\<close>

text \<open>
  A DataFrame with a range index of \<open>index\<close> rows: the labelled columns in order, each
  with one value per row. Labels may repeat, as pandas allows.
\<close>

record dataframe =
  index :: nat
  series :: "(string \<times> json list) list"

text \<open>\<^verbatim>\<open>df.columns\<close>: the labels in order.\<close>

definition columns :: "dataframe \<Rightarrow> string list" where
  "columns df = map fst (series df)"

text \<open>
  Row \<open>r\<close> as \<^verbatim>\<open>df.apply(..., axis=1)\<close> passes it: a Series indexed by the labels.
  Every column of a frame has \<open>index\<close> values and \<open>r\<close> is below \<open>index\<close>, so the read is
  in range.
\<close>

definition row_of :: "dataframe \<Rightarrow> nat \<Rightarrow> (string \<times> json) list" where
  "row_of df r = map (\<lambda>(c, vs). (c, vs ! r)) (series df)"

subsection \<open>json_normalize\<close>

text \<open>
  \<^verbatim>\<open>pd.json_normalize(events)\<close> is pandas' code, not the notebook's. With no option set it
  flattens each record by \<^verbatim>\<open>_normalise_json_ordered\<close>: the values that are not dicts
  stay where they are, and every nested dict is walked, the keys on the way joined by a
  dot; a list is a leaf. \<^verbatim>\<open>normalized_dict[key_string] = data\<close> is \<open>AList.update\<close>.
  The record is a Python dict, so the keys of \<open>data\<close> are distinct.
\<close>

definition new_key :: "string \<Rightarrow> string \<Rightarrow> string" where
  "new_key key_string k = (if key_string = [] then k else key_string @ ''.'' @ k)"

fun normalise_json :: "json \<Rightarrow> string \<Rightarrow> dict \<Rightarrow> dict"
  and normalise_items :: "(string \<times> json) list \<Rightarrow> string \<Rightarrow> dict \<Rightarrow> dict" where
  "normalise_json (JDict kvs) key_string acc = normalise_items kvs key_string acc"
| "normalise_json JNull key_string acc = AList.update key_string JNull acc"
| "normalise_json (JBool b) key_string acc = AList.update key_string (JBool b) acc"
| "normalise_json (JNum n) key_string acc = AList.update key_string (JNum n) acc"
| "normalise_json (JStr s) key_string acc = AList.update key_string (JStr s) acc"
| "normalise_json (JList xs) key_string acc = AList.update key_string (JList xs) acc"
| "normalise_items [] key_string acc = acc"
| "normalise_items ((k, v) # kvs) key_string acc =
     normalise_items kvs key_string (normalise_json v (new_key key_string k) acc)"

definition normalise_json_ordered :: "event \<Rightarrow> dict" where
  "normalise_json_ordered data =
     (let top_dict = filter (\<lambda>(k, v). \<not> is_dict v) data;
          nested_dict = normalise_json (JDict (filter (\<lambda>(k, v). is_dict v) data)) [] []
      in fold (\<lambda>(k, v). AList.update k v) nested_dict top_dict)"

text \<open>
  \<^verbatim>\<open>DataFrame(records)\<close> for a list of dicts: the columns are the keys in the order in
  which they are first seen, and a record without a key gets the missing value there.
  pandas then gives each column one dtype: a column of numbers in which a value is
  missing, or in which a whole number stands beside a float, becomes float64, where a
  whole number of magnitude above \<open>2 ^ 53\<close> is rounded. The dtypes are not modelled: a
  cell here is the record's value itself. The model and pandas agree on which cells are
  missing, which are lists, and on every value that \<open>stored_exactly\<close> (below) admits; a
  statement that equates a cell with a number of the input is made for those values only.
\<close>

definition first_seen :: "string list \<Rightarrow> string list" where
  "first_seen ks = fold (\<lambda>k acc. if k \<in> set acc then acc else acc @ [k]) ks []"

definition DataFrame :: "dict list \<Rightarrow> dataframe" where
  "DataFrame records =
     \<lparr>index = length records,
      series = map (\<lambda>c. (c, map (\<lambda>rec. case map_of rec c of Some v \<Rightarrow> v | None \<Rightarrow> JNull) records))
                 (first_seen (concat (map (map fst) records)))\<rparr>"

definition json_normalize :: "event list \<Rightarrow> dataframe" where
  "json_normalize events = DataFrame (map normalise_json_ordered events)"

subsection \<open>The notebook's cells\<close>

datatype error = IndexError | KeyError

text \<open>
  \<^verbatim>\<open>columns = {k: k.replace(".", "_") for k in df.columns}\<close>,
  \<^verbatim>\<open>df = df.rename(columns=columns)\<close>.
\<close>

definition rename_columns :: "dataframe \<Rightarrow> dataframe" where
  "rename_columns df = df\<lparr>series := map (\<lambda>(k, vs). (str_replace ''.'' ''_'' k, vs)) (series df)\<rparr>"

text \<open>
  \<^verbatim>\<open>x[col]\<close> on a row: the cell under the label, a Series of the cells when several
  columns carry the label, \<^verbatim>\<open>KeyError\<close> when none does.
\<close>

datatype lookup = Cell json | SubSeries "json list"

definition series_getitem :: "(string \<times> json) list \<Rightarrow> string \<Rightarrow> error + lookup" where
  "series_getitem x col =
     (case map snd (filter (\<lambda>(c, v). c = col) x) of
        [] \<Rightarrow> Inl KeyError
      | [v] \<Rightarrow> Inr (Cell v)
      | vs \<Rightarrow> Inr (SubSeries vs))"

text \<open>\<^verbatim>\<open>lambda x: x[col][i] if type(x[col]) == list else None\<close>\<close>

definition coordinate :: "string \<Rightarrow> nat \<Rightarrow> (string \<times> json) list \<Rightarrow> error + json" where
  "coordinate col i x =
     (case series_getitem x col of
        Inl e \<Rightarrow> Inl e
      | Inr (Cell (JList xs)) \<Rightarrow> (if i < length xs then Inr (xs ! i) else Inl IndexError)
      | Inr other \<Rightarrow> Inr JNull)"

text \<open>The results of the rows, in order; the first exception ends the call.\<close>

fun collect :: "(error + 'a) list \<Rightarrow> error + 'a list" where
  "collect [] = Inr []"
| "collect (x # xs) =
     (case x of
        Inl e \<Rightarrow> Inl e
      | Inr v \<Rightarrow> (case collect xs of Inl e \<Rightarrow> Inl e | Inr vs \<Rightarrow> Inr (v # vs)))"

text \<open>
  \<^verbatim>\<open>df.apply(f, axis=1)\<close>. pandas gathers the results in a Series and gives it one dtype,
  as it does for a column of a frame; here the results are kept as they are.
\<close>

definition apply_rows :: "((string \<times> json) list \<Rightarrow> error + json) \<Rightarrow> dataframe \<Rightarrow> error + json list" where
  "apply_rows f df = collect (map (\<lambda>r. f (row_of df r)) [0..<index df])"

text \<open>
  \<^verbatim>\<open>df[key] = vals\<close>: a new label is appended as the last column; an existing label
  keeps its place and gets the new values, in every column that carries it.
\<close>

definition setitem :: "string \<Rightarrow> json list \<Rightarrow> dataframe \<Rightarrow> dataframe" where
  "setitem key vals df =
     (if key \<in> set (columns df)
      then df\<lparr>series := map (\<lambda>(c, vs). if c = key then (c, vals) else (c, vs)) (series df)\<rparr>
      else df\<lparr>series := series df @ [(key, vals)]\<rparr>)"

text \<open>
  \<^verbatim>\<open>for i, dimension in enumerate(["x", "y"]):\<close>
  \<^verbatim>\<open>    new_col = col.replace("location", dimension)\<close>
  \<^verbatim>\<open>    df[new_col] = df.apply(lambda x: ..., axis=1)\<close>
\<close>

fun split_dimensions :: "string \<Rightarrow> (nat \<times> string) list \<Rightarrow> dataframe \<Rightarrow> error + dataframe" where
  "split_dimensions col [] df = Inr df"
| "split_dimensions col ((i, dimension) # rest) df =
     (case apply_rows (coordinate col i) df of
        Inl e \<Rightarrow> Inl e
      | Inr vals \<Rightarrow>
          split_dimensions col rest (setitem (str_replace ''location'' dimension col) vals df))"

text \<open>\<^verbatim>\<open>for col in location_columns:\<close>\<close>

fun split_columns :: "string list \<Rightarrow> dataframe \<Rightarrow> error + dataframe" where
  "split_columns [] df = Inr df"
| "split_columns (col # cols) df =
     (case split_dimensions col [(0, ''x''), (1, ''y'')] df of
        Inl e \<Rightarrow> Inl e
      | Inr df' \<Rightarrow> split_columns cols df')"

text \<open>\<^verbatim>\<open>location_columns = [x for x in df.columns.values if 'location' in x]\<close>\<close>

definition location_columns :: "dataframe \<Rightarrow> string list" where
  "location_columns df = filter (str_contains ''location'') (columns df)"

text \<open>
  \<^verbatim>\<open>df[keys]\<close> for a list of labels: for each key in turn, every column that carries it.
  The notebook takes the keys from \<^verbatim>\<open>df.columns\<close> itself, so none is missing.
\<close>

definition select_columns :: "string list \<Rightarrow> dataframe \<Rightarrow> dataframe" where
  "select_columns keys df =
     df\<lparr>series := concat (map (\<lambda>k. filter (\<lambda>(c, vs). c = k) (series df)) keys)\<rparr>"

text \<open>\<^verbatim>\<open>df = df[[c for c in df.columns if c not in names]]\<close>\<close>

definition drop_columns :: "string list \<Rightarrow> dataframe \<Rightarrow> dataframe" where
  "drop_columns names df = select_columns (filter (\<lambda>c. c \<notin> set names) (columns df)) df"

definition columns_to_remove :: "string list" where
  "columns_to_remove = [''tactics_lineup'', ''related_events'', ''shot_freeze_frame'']"

text \<open>
  The cells from \<^verbatim>\<open>json_normalize\<close> to the last selection, in the notebook's order, with
  the list of columns to remove as a parameter.
\<close>

definition flatten :: "event list \<Rightarrow> string list \<Rightarrow> error + dataframe" where
  "flatten events dropColumns =
     (let df = rename_columns (json_normalize events);
          locs = location_columns df
      in case split_columns locs df of
           Inl e \<Rightarrow> Inl e
         | Inr df' \<Rightarrow> Inr (drop_columns dropColumns (drop_columns locs df')))"

text \<open>Row \<open>r\<close> of a table as a Flat Record: the value under each column name.\<close>

definition flat_record :: "dataframe \<Rightarrow> nat \<Rightarrow> string \<Rightarrow> json option" where
  "flat_record df r = map_of (row_of df r)"

subsection \<open>Notions used in the statements\<close>

text \<open>The frame the split loop starts from.\<close>

definition renamed :: "event list \<Rightarrow> dataframe" where
  "renamed events = rename_columns (json_normalize events)"

text \<open>The names the loop assigns to, in the loop's order.\<close>

definition derived_columns :: "string list \<Rightarrow> string list" where
  "derived_columns locs =
     concat (map (\<lambda>col. [str_replace ''location'' ''x'' col, str_replace ''location'' ''y'' col]) locs)"

text \<open>
  The values that every dtype of pandas holds as they are. A number that is not whole is
  a Python float, and a float64 column keeps it; a whole number is kept by an int64 and
  by an object column, and by a float64 column when its magnitude is at most \<open>2 ^ 53\<close>.
  Everything that is not a number is held in an object column.
\<close>

fun stored_exactly :: "json \<Rightarrow> bool" where
  "stored_exactly (JNum q) = (of_int \<lfloor>q\<rfloor> \<noteq> q \<or> \<bar>q\<bar> \<le> 2 ^ 53)"
| "stored_exactly v = True"

text \<open>What the lambda yields for a cell that stands alone under its label.\<close>

fun coordinate_of :: "nat \<Rightarrow> json \<Rightarrow> error + json" where
  "coordinate_of i (JList xs) = (if i < length xs then Inr (xs ! i) else Inl IndexError)"
| "coordinate_of i v = Inr JNull"

text \<open>The loop as the list of its assignments \<open>(col, i, dimension)\<close>, run in order.\<close>

definition assignments :: "string list \<Rightarrow> (string \<times> nat \<times> string) list" where
  "assignments locs = concat (map (\<lambda>col. [(col, 0, ''x''), (col, 1, ''y'')]) locs)"

fun run_assignments :: "(string \<times> nat \<times> string) list \<Rightarrow> dataframe \<Rightarrow> error + dataframe" where
  "run_assignments [] d = Inr d"
| "run_assignments ((col, i, dimension) # rest) d =
     (case apply_rows (coordinate col i) d of
        Inl e \<Rightarrow> Inl e
      | Inr vals \<Rightarrow>
          run_assignments rest (setitem (str_replace ''location'' dimension col) vals d))"

text \<open>The column an assignment of the loop writes.\<close>

fun target :: "string \<times> nat \<times> string \<Rightarrow> string" where
  "target (col, i, dimension) = str_replace ''location'' dimension col"

fun valid_assignment :: "string \<times> nat \<times> string \<Rightarrow> bool" where
  "valid_assignment (col, i, dimension) =
     (str_contains ''location'' col \<and> i < 2 \<and> (dimension = ''x'' \<or> dimension = ''y''))"

text \<open>A cell whose split yields scalars: not a list, or a list that starts with two scalars.\<close>

fun splits_to_scalars :: "json \<Rightarrow> bool" where
  "splits_to_scalars (JList xs) = list_all is_scalar (take 2 xs)"
| "splits_to_scalars v = True"

text \<open>
  The location columns of a frame can be split without looking outside a list: each holds
  one value per row, and every list in it starts with two scalars.
\<close>

definition splittable :: "dataframe \<Rightarrow> bool" where
  "splittable d \<longleftrightarrow>
     (\<forall>(c, ws) \<in> set (filter (\<lambda>(c, vs). str_contains ''location'' c) (series d)).
        length ws = index d \<and> list_all splits_to_scalars ws)"

subsection \<open>Example events\<close>

definition pass_event :: event where
  "pass_event =
     [(''type'', JDict [(''name'', JStr ''Pass'')]),
      (''pass'', JDict [(''end_location'', JList [JNum 10, JNum 20])])]"

definition pass_60_40 :: event where
  "pass_60_40 =
     [(''type'', JDict [(''name'', JStr ''Pass'')]),
      (''pass'', JDict [(''end_location'', JList [JNum 60, JNum 40])])]"

text \<open>A shot: its end location has a third coordinate, as StatsBomb's shots have.\<close>

definition shot_event :: event where
  "shot_event =
     [(''type'', JDict [(''name'', JStr ''Shot'')]),
      (''shot'', JDict [(''xg'', JNum (1 / 2)),
                        (''end_location'', JList [JNum 1, JNum 2, JNum 3])])]"

definition related_event :: event where
  "related_event =
     [(''type'', JDict [(''name'', JStr ''Pass'')]),
      (''related_events'', JList [JStr ''e1'', JStr ''e2''])]"

definition short_event :: event where
  "short_event = [(''location'', JList [JNum 1])]"

definition two_events :: "event list" where
  "two_events = [pass_60_40, shot_event]"

definition two_events_table :: dataframe where
  "two_events_table =
     \<lparr>index = 2,
      series = [(''type_name'', [JStr ''Pass'', JStr ''Shot'']),
                (''shot_xg'', [JNull, JNum (1 / 2)]),
                (''pass_end_x'', [JNum 60, JNull]),
                (''pass_end_y'', [JNum 40, JNull]),
                (''shot_end_x'', [JNull, JNum 1]),
                (''shot_end_y'', [JNull, JNum 2])]\<rparr>"

definition related_events :: "event list" where
  "related_events = [pass_60_40, related_event]"

definition related_events_table :: dataframe where
  "related_events_table =
     \<lparr>index = 2,
      series = [(''type_name'', [JStr ''Pass'', JStr ''Pass'']),
                (''pass_end_x'', [JNum 60, JNull]),
                (''pass_end_y'', [JNum 40, JNull])]\<rparr>"

section \<open>Facts about strings\<close>

lemma str_replace_Nil: "old \<noteq> [] \<Longrightarrow> str_replace old new [] = []"
  by (simp add: str_replace.simps)

lemma str_replace_hit:
  "old \<noteq> [] \<Longrightarrow> prefix old (c # cs) \<Longrightarrow>
   str_replace old new (c # cs) = new @ str_replace old new (drop (length old) (c # cs))"
  by (subst str_replace.simps) simp

lemma str_replace_miss:
  "old \<noteq> [] \<Longrightarrow> \<not> prefix old (c # cs) \<Longrightarrow>
   str_replace old new (c # cs) = c # str_replace old new cs"
  by (subst str_replace.simps) simp

lemma prefix_str_replace:
  assumes "old \<noteq> []" "new \<noteq> []"
  shows "set p \<inter> set new = {} \<Longrightarrow> prefix p (str_replace old new s) \<Longrightarrow> prefix p s"
proof (induction p arbitrary: s)
  case Nil
  then show ?case by simp
next
  case (Cons a p)
  from Cons.prems have ne: "s \<noteq> []"
    using assms(1) by (cases s) (auto simp: str_replace_Nil)
  then obtain c cs where s: "s = c # cs" by (cases s) auto
  show ?case
  proof (cases "prefix old s")
    case True
    then have "str_replace old new s = new @ str_replace old new (drop (length old) s)"
      using assms(1) s by (simp add: str_replace_hit)
    with Cons.prems(2) obtain n ns where "new = n # ns" "a = n"
      using assms(2) by (cases new) auto
    with Cons.prems(1) show ?thesis by auto
  next
    case False
    then have eq: "str_replace old new s = c # str_replace old new cs"
      using assms(1) s by (simp add: str_replace_miss)
    with Cons.prems have "a = c" "prefix p (str_replace old new cs)" by auto
    moreover have "set p \<inter> set new = {}" using Cons.prems(1) by auto
    ultimately show ?thesis using Cons.IH s by auto
  qed
qed

lemma str_contains_append_disjoint:
  "old \<noteq> [] \<Longrightarrow> set u \<inter> set old = {} \<Longrightarrow> str_contains old (u @ t) \<Longrightarrow> str_contains old t"
proof (induction u)
  case Nil
  then show ?case by simp
next
  case (Cons c u)
  from Cons.prems(1) obtain a as where old: "old = a # as" by (cases old) auto
  have "\<not> prefix old (c # u @ t)"
    using Cons.prems(2) old by auto
  with Cons show ?case by auto
qed

lemma str_replace_removes:
  assumes "old \<noteq> []" "new \<noteq> []" "set new \<inter> set old = {}"
  shows "\<not> str_contains old (str_replace old new s)"
proof (induction "length s" arbitrary: s rule: less_induct)
  case less
  show ?case
  proof (cases s)
    case Nil
    then show ?thesis using assms(1) by (simp add: str_replace_Nil)
  next
    case (Cons c cs)
    show ?thesis
    proof (cases "prefix old s")
      case True
      have "length (drop (length old) s) < length s"
        using assms(1) Cons by simp
      then have "\<not> str_contains old (str_replace old new (drop (length old) s))"
        by (rule less)
      moreover have "str_replace old new s = new @ str_replace old new (drop (length old) s)"
        using True assms(1) Cons by (simp add: str_replace_hit)
      ultimately show ?thesis
        using str_contains_append_disjoint [OF assms(1) assms(3)] by auto
    next
      case False
      have ih: "\<not> str_contains old (str_replace old new cs)"
        using less [of cs] Cons by simp
      have eq: "str_replace old new s = c # str_replace old new cs"
        using False assms(1) Cons by (simp add: str_replace_miss)
      obtain a as where old: "old = a # as" using assms(1) by (cases old) auto
      have "\<not> prefix old (c # str_replace old new cs)"
      proof
        assume p: "prefix old (c # str_replace old new cs)"
        then have "a = c" "prefix as (str_replace old new cs)" using old by auto
        moreover have "set as \<inter> set new = {}" using assms(3) old by auto
        ultimately have "prefix as cs"
          using prefix_str_replace [OF assms(1) assms(2)] by blast
        with \<open>a = c\<close> old Cons False show False by simp
      qed
      with ih eq show ?thesis by simp
    qed
  qed
qed

lemma location_replaced:
  "d = ''x'' \<or> d = ''y'' \<Longrightarrow> \<not> str_contains ''location'' (str_replace ''location'' d s)"
  by (rule str_replace_removes) auto

section \<open>Facts about frames\<close>

lemma flat_record_eq: "flat_record d r k = map_option (\<lambda>vs. vs ! r) (map_of (series d) k)"
  unfolding flat_record_def row_of_def
  by (induction "series d" arbitrary: d) (auto simp: map_of_map split: prod.splits)

lemma map_of_overwrite_other:
  "k \<noteq> key \<Longrightarrow> map_of (map (\<lambda>(c, vs). if c = key then (c, vals) else (c, vs)) xs) k = map_of xs k"
  by (induction xs) (simp_all split: prod.splits)

lemma map_of_overwrite_same:
  "key \<in> fst ` set xs \<Longrightarrow>
   map_of (map (\<lambda>(c, vs). if c = key then (c, vals) else (c, vs)) xs) key = Some vals"
proof (induction xs)
  case Nil
  then show ?case by simp
next
  case (Cons x xs)
  obtain c vs where x: "x = (c, vs)" by (cases x)
  show ?case
  proof (cases "c = key")
    case True
    with x show ?thesis by simp
  next
    case False
    with Cons x show ?thesis by simp
  qed
qed

lemma map_of_setitem:
  "map_of (series (setitem key vals d)) k = (if k = key then Some vals else map_of (series d) k)"
proof (cases "key \<in> set (columns d)")
  case True
  then show ?thesis
    by (simp add: setitem_def columns_def map_of_overwrite_other map_of_overwrite_same)
next
  case False
  then have "map_of (series d) key = None"
    by (simp add: columns_def map_of_eq_None_iff)
  with False show ?thesis
    by (simp add: setitem_def map_add_def split: option.splits)
qed

lemma index_setitem: "index (setitem key vals d) = index d"
  by (simp add: setitem_def)

lemma columns_setitem: "set (columns (setitem key vals d)) = insert key (set (columns d))"
  by (auto simp: setitem_def columns_def split: if_splits prod.splits) force+

lemma filter_setitem:
  "\<not> p key \<Longrightarrow> filter (\<lambda>(c, vs). p c) (series (setitem key vals d)) = filter (\<lambda>(c, vs). p c) (series d)"
proof -
  assume np: "\<not> p key"
  have "filter (\<lambda>(c, vs). p c) (map (\<lambda>(c, vs). if c = key then (c, vals) else (c, vs)) xs)
        = filter (\<lambda>(c, vs). p c) xs" for xs
    using np by (induction xs) (auto split: prod.splits)
  with np show ?thesis by (simp add: setitem_def)
qed

lemma collect_Inr:
  "collect xs = Inr vs \<longleftrightarrow> xs = map Inr vs"
proof (induction xs arbitrary: vs)
  case Nil
  then show ?case by auto
next
  case (Cons x xs)
  show ?case
  proof (cases x)
    case (Inl e)
    then show ?thesis by auto
  next
    case (Inr v)
    show ?thesis
    proof (cases "collect xs")
      case (Inl e)
      with Cons Inr show ?thesis by (cases vs) auto
    next
      case r: (Inr ws)
      with Cons [of ws] Inr show ?thesis by (cases vs) auto
    qed
  qed
qed

lemma collect_Inl:
  "collect xs = Inl e \<Longrightarrow> Inl e \<in> set xs"
  by (induction xs) (auto split: sum.splits)

lemma collect_fails:
  "Inl e \<in> set xs \<Longrightarrow> \<exists>e'. collect xs = Inl e'"
  by (induction xs) (auto split: sum.splits)

lemma apply_rows_Inr:
  "apply_rows f d = Inr vals \<longleftrightarrow>
   length vals = index d \<and> (\<forall>r < index d. f (row_of d r) = Inr (vals ! r))"
proof -
  have "map (\<lambda>r. f (row_of d r)) [0..<index d] = map Inr vals \<longleftrightarrow>
        length vals = index d \<and> (\<forall>r < index d. f (row_of d r) = Inr (vals ! r))"
    by (auto simp: list_eq_iff_nth_eq)
  then show ?thesis by (simp add: apply_rows_def collect_Inr)
qed

lemma apply_rows_Inl:
  "apply_rows f d = Inl e \<Longrightarrow> \<exists>r < index d. f (row_of d r) = Inl e"
proof -
  assume "apply_rows f d = Inl e"
  then have "Inl e \<in> set (map (\<lambda>r. f (row_of d r)) [0..<index d])"
    unfolding apply_rows_def by (rule collect_Inl)
  then obtain r where "r < index d" "f (row_of d r) = Inl e" by auto
  then show ?thesis by blast
qed

lemma apply_rows_fails:
  "r < index d \<Longrightarrow> f (row_of d r) = Inl e \<Longrightarrow> \<exists>e'. apply_rows f d = Inl e'"
proof -
  assume "r < index d" "f (row_of d r) = Inl e"
  then have "Inl e \<in> set (map (\<lambda>r. f (row_of d r)) [0..<index d])" by force
  then show ?thesis unfolding apply_rows_def by (rule collect_fails)
qed

lemma filter_row_of:
  "filter (\<lambda>(c, v). c = col) (row_of d r) =
   map (\<lambda>(c, vs). (c, vs ! r)) (filter (\<lambda>(c, vs). c = col) (series d))"
proof -
  have "filter (\<lambda>(c, v). c = col) (map (\<lambda>(c, vs). (c, vs ! r)) xs) =
        map (\<lambda>(c, vs). (c, vs ! r)) (filter (\<lambda>(c, vs). c = col) xs)" for xs :: "(string \<times> json list) list"
    by (induction xs) (simp_all split: prod.splits)
  then show ?thesis by (simp add: row_of_def)
qed

lemma filter_label_within:
  "p col \<Longrightarrow> filter (\<lambda>(c, vs). c = col) xs = filter (\<lambda>(c, vs). c = col) (filter (\<lambda>(c, vs). p c) xs)"
  by (induction xs) auto

lemma coordinate_cong:
  assumes "p col"
    and "filter (\<lambda>(c, vs). p c) (series d) = filter (\<lambda>(c, vs). p c) (series d')"
  shows "coordinate col i (row_of d r) = coordinate col i (row_of d' r)"
proof -
  have "filter (\<lambda>(c, vs). c = col) (series d) = filter (\<lambda>(c, vs). c = col) (series d')"
    using filter_label_within [of p col "series d"]
          filter_label_within [of p col "series d'"] assms by simp
  then have "filter (\<lambda>(c, v). c = col) (row_of d r) = filter (\<lambda>(c, v). c = col) (row_of d' r)"
    by (simp add: filter_row_of)
  then show ?thesis by (simp add: coordinate_def series_getitem_def)
qed

lemma apply_rows_cong:
  assumes "p col"
    and "filter (\<lambda>(c, vs). p c) (series d) = filter (\<lambda>(c, vs). p c) (series d')"
    and "index d = index d'"
  shows "apply_rows (coordinate col i) d = apply_rows (coordinate col i) d'"
  unfolding apply_rows_def using coordinate_cong [OF assms(1,2)] assms(3) by simp

lemma filter_unique_label:
  "count_list (map fst xs) k = 1 \<Longrightarrow> map_of xs k = Some v \<Longrightarrow>
   filter (\<lambda>(c, vs). c = k) xs = [(k, v)]"
proof (induction xs)
  case Nil
  then show ?case by simp
next
  case (Cons x xs)
  obtain c w where x: "x = (c, w)" by (cases x)
  show ?case
  proof (cases "c = k")
    case True
    with Cons.prems x have "count_list (map fst xs) k = 0" "w = v" by auto
    then have "k \<notin> fst ` set xs" by (simp add: count_list_0_iff)
    then have "filter (\<lambda>(c, vs). c = k) xs = []"
      by (force simp: filter_empty_conv)
    with True x \<open>w = v\<close> show ?thesis by simp
  next
    case False
    with Cons x show ?thesis by simp
  qed
qed

lemma coordinate_unique:
  assumes "count_list (columns d) col = 1" "map_of (series d) col = Some vs"
  shows "coordinate col i (row_of d r) = coordinate_of i (vs ! r)"
proof -
  have "filter (\<lambda>(c, v). c = col) (row_of d r) = [(col, vs ! r)]"
    using filter_unique_label [of "series d" col vs] assms
    by (simp add: filter_row_of columns_def)
  then show ?thesis
    by (cases "vs ! r") (simp_all add: coordinate_def series_getitem_def)
qed

lemma coordinate_no_KeyError:
  "col \<in> set (columns d) \<Longrightarrow> coordinate col i (row_of d r) \<noteq> Inl KeyError"
proof -
  assume "col \<in> set (columns d)"
  then have "filter (\<lambda>(c, vs). c = col) (series d) \<noteq> []"
    by (auto simp: columns_def filter_empty_conv)
  then have "map snd (filter (\<lambda>(c, v). c = col) (row_of d r)) \<noteq> []"
    by (simp add: filter_row_of)
  then show ?thesis
    by (auto simp: coordinate_def series_getitem_def split: list.splits json.splits)
qed

section \<open>Facts about the split loop\<close>

lemma target_not_location: "valid_assignment a \<Longrightarrow> \<not> str_contains ''location'' (target a)"
  by (cases a) (auto simp: location_replaced)

lemma split_dimensions_run:
  "split_dimensions col dims d = run_assignments (map (\<lambda>(i, dimension). (col, i, dimension)) dims) d"
  by (induction dims arbitrary: d) (auto split: sum.splits)

lemma run_assignments_append:
  "run_assignments (as @ bs) d =
     (case run_assignments as d of Inl e \<Rightarrow> Inl e | Inr d1 \<Rightarrow> run_assignments bs d1)"
  by (induction as arbitrary: d) (auto split: sum.splits)

lemma split_columns_run: "split_columns cols d = run_assignments (assignments cols) d"
proof (induction cols arbitrary: d)
  case Nil
  then show ?case by (simp add: assignments_def)
next
  case (Cons col cols)
  let ?A = "map (\<lambda>(i, dimension). (col, i, dimension)) [(0, ''x''), (1, ''y'')]"
  have eq: "assignments (col # cols) = ?A @ assignments cols"
    by (simp add: assignments_def)
  have "split_columns (col # cols) d =
        (case split_dimensions col [(0, ''x''), (1, ''y'')] d of
           Inl e \<Rightarrow> Inl e | Inr d1 \<Rightarrow> split_columns cols d1)"
    by (rule split_columns.simps)
  also have "\<dots> = (case run_assignments ?A d of
           Inl e \<Rightarrow> Inl e | Inr d1 \<Rightarrow> run_assignments (assignments cols) d1)"
    unfolding split_dimensions_run Cons.IH ..
  also have "\<dots> = run_assignments (assignments (col # cols)) d"
    unfolding eq run_assignments_append ..
  finally show ?case .
qed

lemma map_target_assignments: "map target (assignments cols) = derived_columns cols"
  by (induction cols) (simp_all add: assignments_def derived_columns_def)

lemma step_preserves:
  assumes "valid_assignment a"
  shows "filter (\<lambda>(c, vs). str_contains ''location'' c) (series (setitem (target a) vals d))
         = filter (\<lambda>(c, vs). str_contains ''location'' c) (series d)"
  using target_not_location [OF assms] by (simp add: filter_setitem)

lemma run_index:
  "run_assignments as d = Inr d1 \<Longrightarrow> index d1 = index d"
proof (induction as arbitrary: d)
  case Nil
  then show ?case by simp
next
  case (Cons a as)
  obtain col i dimension where a: "a = (col, i, dimension)" by (cases a)
  from Cons.prems obtain vals where "run_assignments as (setitem (target a) vals d) = Inr d1"
    using a by (auto split: sum.splits)
  from Cons.IH [OF this] show ?case by (simp add: index_setitem)
qed

lemma run_columns:
  "run_assignments as d = Inr d1 \<Longrightarrow> set (columns d1) = set (columns d) \<union> target ` set as"
proof (induction as arbitrary: d)
  case Nil
  then show ?case by simp
next
  case (Cons a as)
  obtain col i dimension where a: "a = (col, i, dimension)" by (cases a)
  from Cons.prems obtain vals where "run_assignments as (setitem (target a) vals d) = Inr d1"
    using a by (auto split: sum.splits)
  from Cons.IH [OF this] show ?case by (simp add: columns_setitem)
qed

lemma run_untouched:
  "run_assignments as d = Inr d1 \<Longrightarrow> k \<notin> target ` set as \<Longrightarrow> map_of (series d1) k = map_of (series d) k"
proof (induction as arbitrary: d)
  case Nil
  then show ?case by simp
next
  case (Cons a as)
  obtain col i dimension where a: "a = (col, i, dimension)" by (cases a)
  from Cons.prems obtain vals where "run_assignments as (setitem (target a) vals d) = Inr d1"
    using a by (auto split: sum.splits)
  from Cons.IH [OF this] Cons.prems(2) show ?case by (simp add: map_of_setitem)
qed

lemma apply_rows_step:
  assumes "valid_assignment a" "str_contains ''location'' col"
  shows "apply_rows (coordinate col i) (setitem (target a) vals d) = apply_rows (coordinate col i) d"
  by (rule apply_rows_cong [where p = "str_contains ''location''"])
     (simp_all add: assms step_preserves index_setitem)

lemma run_assigned:
  assumes "run_assignments as d = Inr d1" "\<forall>a \<in> set as. valid_assignment a"
    and "(col, i, dimension) \<in> set as"
    and "\<forall>a \<in> set as. target a = target (col, i, dimension) \<longrightarrow> a = (col, i, dimension)"
  shows "\<exists>vals. apply_rows (coordinate col i) d = Inr vals \<and>
           map_of (series d1) (target (col, i, dimension)) = Some vals"
  using assms
proof (induction as arbitrary: d)
  case Nil
  then show ?case by simp
next
  case (Cons a as)
  obtain col' i' dimension' where a: "a = (col', i', dimension')" by (cases a)
  from Cons.prems(1) obtain vals' where
    v: "apply_rows (coordinate col' i') d = Inr vals'"
    and r: "run_assignments as (setitem (target a) vals' d) = Inr d1"
    using a by (auto split: sum.splits)
  have va: "valid_assignment a" using Cons.prems(2) by simp
  have vas: "\<forall>a \<in> set as. valid_assignment a" using Cons.prems(2) by simp
  have uniq: "\<forall>a \<in> set as. target a = target (col, i, dimension) \<longrightarrow> a = (col, i, dimension)"
    using Cons.prems(4) by simp
  have "valid_assignment (col, i, dimension)" using Cons.prems(2,3) by blast
  then have loc: "str_contains ''location'' col" by simp
  show ?case
  proof (cases "(col, i, dimension) \<in> set as")
    case True
    have "\<exists>vals. apply_rows (coordinate col i) (setitem (target a) vals' d) = Inr vals \<and>
           map_of (series d1) (target (col, i, dimension)) = Some vals"
      by (rule Cons.IH [OF r vas True uniq])
    then show ?thesis by (simp only: apply_rows_step [OF va loc])
  next
    case False
    with Cons.prems(3) have eq: "(col', i', dimension') = (col, i, dimension)"
      unfolding a by simp
    have "target (col, i, dimension) \<notin> target ` set as"
    proof
      assume "target (col, i, dimension) \<in> target ` set as"
      then obtain b where b: "b \<in> set as" "target (col, i, dimension) = target b"
        by (rule imageE)
      with uniq have "b = (col, i, dimension)" by metis
      with b(1) False show False by simp
    qed
    from run_untouched [OF r this] have "map_of (series d1) (target (col, i, dimension)) = Some vals'"
      unfolding a eq by (simp add: map_of_setitem)
    moreover have "apply_rows (coordinate col i) d = Inr vals'"
      using v eq by simp
    ultimately show ?thesis by blast
  qed
qed


lemma run_fails:
  assumes "\<forall>a \<in> set as. valid_assignment a" "(col, i, dimension) \<in> set as"
    and "apply_rows (coordinate col i) d = Inl e"
  shows "\<exists>e'. run_assignments as d = Inl e'"
  using assms
proof (induction as arbitrary: d)
  case Nil
  then show ?case by simp
next
  case (Cons a as)
  obtain col' i' dimension' where a: "a = (col', i', dimension')" by (cases a)
  have va: "valid_assignment a" using Cons.prems(1) by simp
  have vas: "\<forall>a \<in> set as. valid_assignment a" using Cons.prems(1) by simp
  have "valid_assignment (col, i, dimension)" using Cons.prems(1,2) by blast
  then have loc: "str_contains ''location'' col" by simp
  show ?case
  proof (cases "apply_rows (coordinate col' i') d")
    case (Inl e')
    then show ?thesis unfolding a by simp
  next
    case (Inr vals')
    with Cons.prems(3) have "\<not> (col = col' \<and> i = i')" by auto
    with Cons.prems(2) have m: "(col, i, dimension) \<in> set as" unfolding a by auto
    have "apply_rows (coordinate col i) (setitem (target a) vals' d) = Inl e"
      using Cons.prems(3) by (simp only: apply_rows_step [OF va loc])
    from Cons.IH [OF vas m this]
    have "\<exists>e'. run_assignments as (setitem (target a) vals' d) = Inl e'" .
    with Inr show ?thesis unfolding a by simp
  qed
qed

lemma run_error:
  assumes "\<forall>a \<in> set as. valid_assignment a" "run_assignments as d = Inl e"
  shows "\<exists>col i dimension. (col, i, dimension) \<in> set as \<and> apply_rows (coordinate col i) d = Inl e"
  using assms
proof (induction as arbitrary: d)
  case Nil
  then show ?case by simp
next
  case (Cons a as)
  obtain col' i' dimension' where a: "a = (col', i', dimension')" by (cases a)
  have va: "valid_assignment a" using Cons.prems(1) by simp
  have vas: "\<forall>a \<in> set as. valid_assignment a" using Cons.prems(1) by simp
  show ?case
  proof (cases "apply_rows (coordinate col' i') d")
    case (Inl e')
    with Cons.prems(2) have "e' = e" unfolding a by simp
    with Inl have "(col', i', dimension') \<in> set (a # as) \<and> apply_rows (coordinate col' i') d = Inl e"
      unfolding a by simp
    then show ?thesis by blast
  next
    case (Inr vals')
    with Cons.prems(2) have "run_assignments as (setitem (target a) vals' d) = Inl e"
      unfolding a by simp
    from Cons.IH [OF vas this] obtain col i dimension where
      m: "(col, i, dimension) \<in> set as"
      and f: "apply_rows (coordinate col i) (setitem (target a) vals' d) = Inl e" by blast
    have "valid_assignment (col, i, dimension)" using m vas by blast
    then have "str_contains ''location'' col" by simp
    with f have "apply_rows (coordinate col i) d = Inl e"
      by (simp only: apply_rows_step [OF va])
    with m have "(col, i, dimension) \<in> set (a # as) \<and> apply_rows (coordinate col i) d = Inl e"
      by simp
    then show ?thesis by blast
  qed
qed

lemma run_succeeds:
  assumes "\<forall>a \<in> set as. valid_assignment a"
    and "\<And>col i dimension. (col, i, dimension) \<in> set as \<Longrightarrow> \<exists>vals. apply_rows (coordinate col i) d = Inr vals"
  shows "\<exists>d1. run_assignments as d = Inr d1"
proof (cases "run_assignments as d")
  case (Inl e)
  from run_error [OF assms(1) this] obtain col i dimension where
    "(col, i, dimension) \<in> set as" "apply_rows (coordinate col i) d = Inl e" by blast
  with assms(2) [of col i dimension] show ?thesis by simp
next
  case (Inr d1)
  then show ?thesis by simp
qed

section \<open>Facts about selecting columns\<close>

lemma map_of_filter_label:
  "map_of (filter (\<lambda>(c, vs). c = k) xs) k' = (if k' = k then map_of xs k' else None)"
  by (induction xs) auto

lemma map_of_select:
  "map_of (concat (map (\<lambda>k. filter (\<lambda>(c, vs). c = k) xs) keys)) k' =
     (if k' \<in> set keys then map_of xs k' else None)"
proof (induction keys)
  case Nil
  then show ?case by simp
next
  case (Cons k keys)
  show ?case
  proof (cases "map_of xs k'")
    case None
    with Cons show ?thesis by (auto simp: map_add_def map_of_filter_label split: option.splits)
  next
    case (Some v)
    with Cons show ?thesis by (auto simp: map_add_def map_of_filter_label split: option.splits)
  qed
qed

lemma set_select:
  "set (concat (map (\<lambda>k. filter (\<lambda>(c, vs). c = k) xs) keys)) = {(c, vs). (c, vs) \<in> set xs \<and> c \<in> set keys}"
  by (induction keys) auto

lemma series_drop_columns:
  "set (series (drop_columns names d)) = {(c, vs). (c, vs) \<in> set (series d) \<and> c \<notin> set names}"
  by (auto simp: drop_columns_def select_columns_def set_select columns_def)

lemma columns_drop_columns:
  "set (columns (drop_columns names d)) = set (columns d) - set names"
proof -
  have "set (columns (drop_columns names d)) = fst ` set (series (drop_columns names d))"
    by (simp add: columns_def)
  also have "\<dots> = set (columns d) - set names"
    unfolding series_drop_columns columns_def by force
  finally show ?thesis .
qed

lemma index_drop_columns: "index (drop_columns names d) = index d"
  by (simp add: drop_columns_def select_columns_def)

lemma map_of_drop_columns:
  "map_of (series (drop_columns names d)) k = (if k \<in> set names then None else map_of (series d) k)"
proof (cases "k \<in> set (columns d)")
  case True
  then show ?thesis
    by (simp add: drop_columns_def select_columns_def map_of_select)
next
  case False
  then have "map_of (series d) k = None"
    by (simp add: columns_def map_of_eq_None_iff)
  with False show ?thesis
    by (simp add: drop_columns_def select_columns_def map_of_select)
qed

lemma flat_record_drop_columns:
  "flat_record (drop_columns names d) r k = (if k \<in> set names then None else flat_record d r k)"
  by (simp add: flat_record_eq map_of_drop_columns)

subsection \<open>Facts about json_normalize\<close>

lemma set_first_seen_fold:
  "set (fold (\<lambda>k acc. if k \<in> set acc then acc else acc @ [k]) ks acc) = set ks \<union> set acc"
  by (induction ks arbitrary: acc) auto

lemma distinct_first_seen_fold:
  "distinct acc \<Longrightarrow> distinct (fold (\<lambda>k acc. if k \<in> set acc then acc else acc @ [k]) ks acc)"
  by (induction ks arbitrary: acc) auto

lemma set_first_seen: "set (first_seen ks) = set ks"
  by (simp add: first_seen_def set_first_seen_fold)

lemma distinct_first_seen: "distinct (first_seen ks)"
  by (simp add: first_seen_def distinct_first_seen_fold)

lemma map_of_tabulate:
  "map_of (map (\<lambda>c. (c, g c)) ks) k = (if k \<in> set ks then Some (g k) else None)"
  by (induction ks) auto

lemma columns_DataFrame:
  "columns (DataFrame records) = first_seen (concat (map (map fst) records))"
  by (simp add: DataFrame_def columns_def comp_def)

lemma columns_json_normalize:
  "set (columns (json_normalize events)) = (\<Union>e \<in> set events. fst ` set (normalise_json_ordered e))"
  by (auto simp: json_normalize_def columns_DataFrame set_first_seen)

lemma distinct_columns_json_normalize: "distinct (columns (json_normalize events))"
  by (simp add: json_normalize_def columns_DataFrame distinct_first_seen)

lemma index_json_normalize: "index (json_normalize events) = length events"
  by (simp add: json_normalize_def DataFrame_def)

lemma map_of_json_normalize:
  "map_of (series (json_normalize events)) k =
     (if k \<in> set (columns (json_normalize events))
      then Some (map (\<lambda>e. case map_of (normalise_json_ordered e) k of Some v \<Rightarrow> v | None \<Rightarrow> JNull) events)
      else None)"
  unfolding json_normalize_def columns_DataFrame
  by (simp add: DataFrame_def map_of_tabulate comp_def)

lemma flat_record_json_normalize:
  assumes "k \<in> set (columns (json_normalize events))" "r < length events"
  shows "flat_record (json_normalize events) r k =
     Some (case map_of (normalise_json_ordered (events ! r)) k of Some v \<Rightarrow> v | None \<Rightarrow> JNull)"
  using assms by (simp add: flat_record_eq map_of_json_normalize)

lemma length_series_json_normalize:
  "(c, vs) \<in> set (series (json_normalize events)) \<Longrightarrow> length vs = length events"
  by (auto simp: json_normalize_def DataFrame_def)

subsection \<open>Facts about the renaming\<close>

lemma columns_rename: "columns (rename_columns d) = map (str_replace ''.'' ''_'') (columns d)"
  by (simp add: rename_columns_def columns_def comp_def case_prod_unfold)

lemma index_rename: "index (rename_columns d) = index d"
  by (simp add: rename_columns_def)

lemma length_series_renamed:
  "(c, vs) \<in> set (series (renamed events)) \<Longrightarrow> length vs = length events"
  by (auto simp: renamed_def rename_columns_def dest: length_series_json_normalize)

lemma index_renamed: "index (renamed events) = length events"
  by (simp add: renamed_def index_rename index_json_normalize)

section \<open>Facts about the whole pipeline\<close>

lemma location_columns_iff:
  "col \<in> set (location_columns d) \<longleftrightarrow> col \<in> set (columns d) \<and> str_contains ''location'' col"
  by (auto simp: location_columns_def)

lemma location_assignments_valid:
  "\<forall>a \<in> set (assignments (location_columns d)). valid_assignment a"
  by (auto simp: assignments_def location_columns_def)

lemma assignment_mem:
  "(col, i, dimension) \<in> set (assignments cols) \<longleftrightarrow>
     col \<in> set cols \<and> ((i = 0 \<and> dimension = ''x'') \<or> (i = 1 \<and> dimension = ''y''))"
  by (auto simp: assignments_def)

lemma flatten_Inr:
  assumes "flatten events dropColumns = Inr out"
  obtains d1 where
    "run_assignments (assignments (location_columns (renamed events))) (renamed events) = Inr d1"
    "out = drop_columns dropColumns (drop_columns (location_columns (renamed events)) d1)"
  using assms unfolding flatten_def renamed_def Let_def split_columns_run
  by (auto split: sum.splits)

lemma flatten_Inl:
  "flatten events dropColumns = Inl e \<longleftrightarrow>
   run_assignments (assignments (location_columns (renamed events))) (renamed events) = Inl e"
  unfolding flatten_def renamed_def Let_def split_columns_run
  by (auto split: sum.splits)

lemma kept_column:
  assumes "flatten events dropColumns = Inr out"
    and "k \<notin> set (derived_columns (location_columns (renamed events)))"
    and "\<not> str_contains ''location'' k" "k \<notin> set dropColumns"
  shows "flat_record out r k = flat_record (renamed events) r k"
proof -
  from assms(1) obtain d1 where
    run: "run_assignments (assignments (location_columns (renamed events))) (renamed events) = Inr d1"
    and out: "out = drop_columns dropColumns (drop_columns (location_columns (renamed events)) d1)"
    by (rule flatten_Inr)
  have "k \<notin> target ` set (assignments (location_columns (renamed events)))"
    using assms(2) by (simp add: map_target_assignments [symmetric] del: target.simps)
  from run_untouched [OF run this]
  have "flat_record d1 r k = flat_record (renamed events) r k"
    by (simp add: flat_record_eq)
  moreover have "k \<notin> set (location_columns (renamed events))"
    using assms(3) by (simp add: location_columns_iff)
  ultimately show ?thesis
    using assms(4) by (simp add: out flat_record_drop_columns)
qed

lemma derived_not_location:
  "k \<in> set (derived_columns cols) \<Longrightarrow> \<not> str_contains ''location'' k"
  by (auto simp: derived_columns_def location_replaced)

lemma columns_flatten:
  assumes "flatten events dropColumns = Inr out"
  shows "set (columns out) =
     ({c \<in> set (columns (renamed events)). \<not> str_contains ''location'' c}
        \<union> set (derived_columns (location_columns (renamed events)))) - set dropColumns"
proof -
  let ?d = "renamed events"
  let ?L = "location_columns ?d"
  from assms obtain d1 where
    run: "run_assignments (assignments ?L) ?d = Inr d1"
    and out: "out = drop_columns dropColumns (drop_columns ?L d1)"
    by (rule flatten_Inr)
  have "set (columns d1) = set (columns ?d) \<union> set (derived_columns ?L)"
    using run_columns [OF run] by (simp add: map_target_assignments [symmetric] del: target.simps)
  then have "set (columns out) = (set (columns ?d) \<union> set (derived_columns ?L)) - set ?L - set dropColumns"
    by (simp add: out columns_drop_columns)
  moreover have "(set (columns ?d) \<union> set (derived_columns ?L)) - set ?L
      = {c \<in> set (columns ?d). \<not> str_contains ''location'' c} \<union> set (derived_columns ?L)"
    using derived_not_location [of _ ?L] by (auto simp: location_columns_iff)
  ultimately show ?thesis by simp
qed

lemma flat_record_Some_series:
  "flat_record d r k = Some v \<Longrightarrow> \<exists>vs. map_of (series d) k = Some vs \<and> vs ! r = v"
  by (auto simp: flat_record_eq)

lemma rename_pass_end_location: "str_replace ''.'' ''_'' ''pass.end_location'' = ''pass_end_location''"
  by code_simp

lemma pass_end_x: "str_replace ''location'' ''x'' ''pass_end_location'' = ''pass_end_x''"
  by code_simp

lemma pass_end_y: "str_replace ''location'' ''y'' ''pass_end_location'' = ''pass_end_y''"
  by code_simp

lemma pass_end_location_contains: "str_contains ''location'' ''pass_end_location''"
  by code_simp

lemma columns_renamed:
  "columns (renamed events) = map (str_replace ''.'' ''_'') (columns (json_normalize events))"
  by (simp add: renamed_def columns_rename)

lemma rename_shot_xg: "str_replace ''.'' ''_'' ''shot.xg'' = ''shot_xg''"
  by code_simp


lemma key_in_json_normalize:
  assumes "r < length events" "map_of (normalise_json_ordered (events ! r)) k = Some v"
  shows "k \<in> set (columns (json_normalize events))"
proof -
  have "k \<in> fst ` set (normalise_json_ordered (events ! r))"
    using assms(2) by (metis domI dom_map_of_conv_image_fst)
  then show ?thesis using assms(1) by (auto simp: columns_json_normalize)
qed

lemma apply_rows_succeeds:
  assumes "\<And>r. r < index d \<Longrightarrow> \<exists>v. f (row_of d r) = Inr v"
  shows "\<exists>vals. apply_rows f d = Inr vals"
proof (cases "apply_rows f d")
  case (Inl e)
  from apply_rows_Inl [OF this] assms show ?thesis by force
next
  case (Inr vals)
  then show ?thesis by simp
qed

lemma map_of_column:
  "col \<in> set (columns d) \<Longrightarrow> \<exists>vs. map_of (series d) col = Some vs"
  by (metis columns_def domD dom_map_of_conv_image_fst set_map)

lemma flatten_error_is_IndexError:
  assumes "flatten events dropColumns = Inl e"
  shows "e = IndexError"
proof -
  let ?d = "renamed events"
  from assms have "run_assignments (assignments (location_columns ?d)) ?d = Inl e"
    by (simp add: flatten_Inl)
  from run_error [OF location_assignments_valid this] obtain col i dimension where
    m: "(col, i, dimension) \<in> set (assignments (location_columns ?d))"
    and f: "apply_rows (coordinate col i) ?d = Inl e" by blast
  from apply_rows_Inl [OF f] obtain r where "coordinate col i (row_of ?d r) = Inl e" by blast
  moreover have "col \<in> set (columns ?d)"
    using m by (simp add: assignment_mem location_columns_iff)
  ultimately have "e \<noteq> KeyError"
    using coordinate_no_KeyError by blast
  then show ?thesis by (cases e) simp_all
qed

lemma series_setitem_subset:
  "set (series (setitem key vals d)) \<subseteq> insert (key, vals) (set (series d))"
  by (auto simp: setitem_def split: if_splits)

lemma coordinate_value:
  assumes "coordinate col i (row_of d r) = Inr v"
  shows "v = JNull \<or>
         (\<exists>ws xs. (col, ws) \<in> set (series d) \<and> ws ! r = JList xs \<and> i < length xs \<and> v = xs ! i)"
proof (cases "map snd (filter (\<lambda>(c, v). c = col) (row_of d r))")
  case Nil
  with assms show ?thesis by (simp add: coordinate_def series_getitem_def)
next
  case (Cons v0 rest)
  show ?thesis
  proof (cases rest)
    case Nil
    with Cons have one: "map snd (filter (\<lambda>(c, v). c = col) (row_of d r)) = [v0]" by simp
    then have "v0 \<in> snd ` set (filter (\<lambda>(c, v). c = col) (row_of d r))"
      by (metis list.set_intros(1) set_map)
    then have "(col, v0) \<in> set (row_of d r)" by auto
    then obtain ws where ws: "(col, ws) \<in> set (series d)" "v0 = ws ! r"
      by (auto simp: row_of_def)
    have "coordinate col i (row_of d r) = coordinate_of i v0"
      using one by (cases v0) (simp_all add: coordinate_def series_getitem_def)
    with assms have cv: "coordinate_of i v0 = Inr v" by simp
    show ?thesis
    proof (cases v0)
      case (JList xs)
      with cv have "i < length xs" "v = xs ! i" by (auto split: if_splits)
      moreover have "ws ! r = JList xs" using ws(2) JList by simp
      ultimately show ?thesis using ws(1) by blast
    qed (use cv in simp_all)
  next
    case c2: (Cons v1 rest')
    with Cons assms show ?thesis by (simp add: coordinate_def series_getitem_def)
  qed
qed

lemma splittable_setitem:
  "valid_assignment a \<Longrightarrow> splittable (setitem (target a) vals d) = splittable d"
  by (simp add: splittable_def step_preserves index_setitem)

lemma split_values_scalar:
  assumes "splittable d" "str_contains ''location'' col" "i < 2"
    and "apply_rows (coordinate col i) d = Inr vals"
  shows "list_all is_scalar vals"
proof -
  have "is_scalar (vals ! r)" if r: "r < length vals" for r
  proof -
    from assms(4) r have "coordinate col i (row_of d r) = Inr (vals ! r)" and ri: "r < index d"
      by (simp_all add: apply_rows_Inr)
    from coordinate_value [OF this(1)] show ?thesis
    proof
      assume "vals ! r = JNull"
      then show ?thesis by simp
    next
      assume "\<exists>ws xs. (col, ws) \<in> set (series d) \<and> ws ! r = JList xs \<and> i < length xs \<and> vals ! r = xs ! i"
      then obtain ws xs where
        ws: "(col, ws) \<in> set (series d)" "ws ! r = JList xs" "i < length xs" "vals ! r = xs ! i"
        by blast
      from ws(1) assms(1,2) have "length ws = index d" "list_all splits_to_scalars ws"
        by (auto simp: splittable_def)
      with ri ws(2) have "splits_to_scalars (JList xs)"
        by (metis list_all_length)
      then have "list_all is_scalar (take 2 xs)" by simp
      moreover have "i < length (take 2 xs)" using ws(3) assms(3) by simp
      ultimately have "is_scalar (take 2 xs ! i)" by (simp add: list_all_length)
      with ws(4) assms(3) show ?thesis by simp
    qed
  qed
  then show ?thesis by (simp add: list_all_length)
qed

lemma run_keeps_scalars:
  assumes "run_assignments as d = Inr d1" "\<forall>a \<in> set as. valid_assignment a"
    and "splittable d"
    and "\<forall>(c, vs) \<in> set (series d). \<not> str_contains ''location'' c \<longrightarrow> c \<in> D \<or> list_all is_scalar vs"
  shows "\<forall>(c, vs) \<in> set (series d1). \<not> str_contains ''location'' c \<longrightarrow> c \<in> D \<or> list_all is_scalar vs"
  using assms
proof (induction as arbitrary: d)
  case Nil
  then show ?case by simp
next
  case (Cons a as)
  obtain col i dimension where a: "a = (col, i, dimension)" by (cases a)
  from Cons.prems(1) obtain vals where
    v: "apply_rows (coordinate col i) d = Inr vals"
    and r: "run_assignments as (setitem (target a) vals d) = Inr d1"
    unfolding a by (auto split: sum.splits)
  have va: "valid_assignment a" using Cons.prems(2) by simp
  have vas: "\<forall>a \<in> set as. valid_assignment a" using Cons.prems(2) by simp
  have "list_all is_scalar vals"
    using split_values_scalar [OF Cons.prems(3) _ _ v] va unfolding a by simp
  then have inv: "\<forall>(c, vs) \<in> set (series (setitem (target a) vals d)).
      \<not> str_contains ''location'' c \<longrightarrow> c \<in> D \<or> list_all is_scalar vs"
    using Cons.prems(4) series_setitem_subset [of "target a" vals d] by blast
  have sp: "splittable (setitem (target a) vals d)"
    using Cons.prems(3) by (simp add: splittable_setitem [OF va])
  show ?case by (rule Cons.IH [OF r vas sp inv])
qed

lemma set_derived_columns:
  "set (derived_columns (location_columns d)) =
     (\<Union>c \<in> {c \<in> set (columns d). str_contains ''location'' c}.
        {str_replace ''location'' ''x'' c, str_replace ''location'' ''y'' c})"
  by (auto simp: derived_columns_def location_columns_def)



section \<open>Facts about names that occur once\<close>

subsection \<open>Counting occurrences\<close>

lemma count_list_filter:
  "count_list (filter P xs) a = (if P a then count_list xs a else 0)"
  by (induction xs) auto

lemma count_list_map_ge:
  "count_list xs a \<le> count_list (map f xs) (f a)"
  by (induction xs) auto

lemma count_list_map_unique:
  "count_list (map f xs) (f a) = 1 \<Longrightarrow> a \<in> set xs \<Longrightarrow> b \<in> set xs \<Longrightarrow> f b = f a \<Longrightarrow> b = a"
proof (induction xs)
  case Nil
  then show ?case by simp
next
  case (Cons x xs)
  show ?case
  proof (cases "f x = f a")
    case True
    with Cons.prems(1) have "count_list (map f xs) (f a) = 0" by simp
    then have "f a \<notin> f ` set xs" by (simp add: count_list_0_iff)
    with Cons.prems(2,3,4) show ?thesis by (metis imageI set_ConsD)
  next
    case False
    with Cons show ?thesis by auto
  qed
qed

lemma count_assignments:
  "(i = 0 \<and> dimension = ''x'') \<or> (i = 1 \<and> dimension = ''y'') \<Longrightarrow>
   count_list (assignments cols) (col, i, dimension) = count_list cols col"
  by (induction cols) (auto simp: assignments_def)

lemma count_location_columns:
  "str_contains ''location'' col \<Longrightarrow>
   count_list (location_columns d) col = count_list (columns d) col"
  by (simp add: location_columns_def count_list_filter)

subsection \<open>Which names a derived name comes from\<close>

lemma str_replace_eq_Nil:
  "old \<noteq> [] \<Longrightarrow> new \<noteq> [] \<Longrightarrow> str_replace old new s = [] \<Longrightarrow> s = []"
proof (cases s)
  case Nil
  then show ?thesis by simp
next
  case (Cons c cs)
  assume "old \<noteq> []" "new \<noteq> []" "str_replace old new s = []"
  then show ?thesis
    unfolding Cons by (cases "prefix old (c # cs)") (simp_all add: str_replace_hit str_replace_miss)
qed

lemma str_replace_prefix_other:
  assumes "old \<noteq> []" "new \<noteq> []"
  shows "hd new \<notin> set p \<Longrightarrow> str_replace old new s = p @ t \<Longrightarrow>
         \<exists>s'. s = p @ s' \<and> str_replace old new s' = t"
proof (induction p arbitrary: s)
  case Nil
  then show ?case by simp
next
  case (Cons a p)
  from Cons.prems(2) have "s \<noteq> []"
    using assms(1) by (cases s) (auto simp: str_replace_Nil)
  then obtain c cs where s: "s = c # cs" by (cases s) auto
  have "\<not> prefix old s"
  proof
    assume "prefix old s"
    then have "str_replace old new s = new @ str_replace old new (drop (length old) s)"
      using assms(1) s by (simp add: str_replace_hit)
    with Cons.prems(2) have "hd new = a" using assms(2) by (cases new) auto
    with Cons.prems(1) show False by simp
  qed
  then have "str_replace old new s = c # str_replace old new cs"
    using assms(1) s by (simp add: str_replace_miss)
  with Cons.prems(2) have "c = a" "str_replace old new cs = p @ t" by auto
  moreover have "hd new \<notin> set p" using Cons.prems(1) by simp
  ultimately obtain s' where "cs = p @ s'" "str_replace old new s' = t"
    using Cons.IH by blast
  with s \<open>c = a\<close> show ?case by simp
qed

lemma single_target:
  assumes "old \<noteq> []" and "str_replace old [n] s = p @ [m]" and "n \<notin> set p"
    and "str_contains old s" and "\<not> str_contains old (p @ [m])"
  shows "s = p @ old \<and> n = m"
proof -
  from str_replace_prefix_other [OF assms(1), of "[n]" p s "[m]"] assms(2,3)
  obtain s' where s: "s = p @ s'" and r: "str_replace old [n] s' = [m]" by auto
  from r have "s' \<noteq> []" using assms(1) by (cases s') (auto simp: str_replace_Nil)
  then obtain c cs where s': "s' = c # cs" by (cases s') auto
  show ?thesis
  proof (cases "prefix old s'")
    case True
    then have "str_replace old [n] s' = [n] @ str_replace old [n] (drop (length old) s')"
      using assms(1) s' by (simp add: str_replace_hit)
    with r have nm: "n = m" and "str_replace old [n] (drop (length old) s') = []" by auto
    then have "drop (length old) s' = []"
      using str_replace_eq_Nil [OF assms(1)] by blast
    with True have "s' = old"
      by (auto simp: prefix_def)
    with s nm show ?thesis by simp
  next
    case False
    then have "str_replace old [n] s' = c # str_replace old [n] cs"
      using assms(1) s' by (simp add: str_replace_miss)
    with r have "c = m" and "str_replace old [n] cs = []" by auto
    then have "cs = []" using str_replace_eq_Nil [OF assms(1)] by blast
    with s s' \<open>c = m\<close> assms(4,5) show ?thesis by simp
  qed
qed

lemma only_pass_end_location_gives_x:
  assumes "str_contains ''location'' c" and "d = ''x'' \<or> d = ''y''"
    and "str_replace ''location'' d c = ''pass_end_x''"
  shows "c = ''pass_end_location'' \<and> d = ''x''"
proof -
  have n: "\<not> str_contains ''location'' (''pass_end_'' @ [CHR ''x''])" by code_simp
  from assms(2) show ?thesis
  proof
    assume d: "d = ''x''"
    have "c = ''pass_end_'' @ ''location'' \<and> CHR ''x'' = CHR ''x''"
      by (rule single_target [OF _ _ _ assms(1) n]) (use assms(3) d in simp_all)
    with d show ?thesis by simp
  next
    assume d: "d = ''y''"
    have "c = ''pass_end_'' @ ''location'' \<and> CHR ''y'' = CHR ''x''"
      by (rule single_target [OF _ _ _ assms(1) n]) (use assms(3) d in simp_all)
    then show ?thesis by simp
  qed
qed

lemma only_pass_end_location_gives_y:
  assumes "str_contains ''location'' c" and "d = ''x'' \<or> d = ''y''"
    and "str_replace ''location'' d c = ''pass_end_y''"
  shows "c = ''pass_end_location'' \<and> d = ''y''"
proof -
  have n: "\<not> str_contains ''location'' (''pass_end_'' @ [CHR ''y''])" by code_simp
  from assms(2) show ?thesis
  proof
    assume d: "d = ''y''"
    have "c = ''pass_end_'' @ ''location'' \<and> CHR ''y'' = CHR ''y''"
      by (rule single_target [OF _ _ _ assms(1) n]) (use assms(3) d in simp_all)
    with d show ?thesis by simp
  next
    assume d: "d = ''x''"
    have "c = ''pass_end_'' @ ''location'' \<and> CHR ''x'' = CHR ''y''"
      by (rule single_target [OF _ _ _ assms(1) n]) (use assms(3) d in simp_all)
    then show ?thesis by simp
  qed
qed

subsection \<open>Cells under names that occur once\<close>

text \<open>
  A location column whose name no other column carries is split row by row into the
  column an assignment writes, when no other assignment writes to that name.
\<close>

lemma derived_column:
  assumes "flatten events dropColumns = Inr out"
    and "count_list (columns (renamed events)) col = 1"
    and "str_contains ''location'' col"
    and "map_of (series (renamed events)) col = Some vs"
    and "r < length events"
    and "(i = 0 \<and> dimension = ''x'') \<or> (i = 1 \<and> dimension = ''y'')"
    and "\<forall>a \<in> set (assignments (location_columns (renamed events))).
           target a = str_replace ''location'' dimension col \<longrightarrow> a = (col, i, dimension)"
    and "str_replace ''location'' dimension col \<notin> set dropColumns"
  shows "\<exists>v. coordinate_of i (vs ! r) = Inr v \<and>
             flat_record out r (str_replace ''location'' dimension col) = Some v"
proof -
  let ?d = "renamed events"
  let ?as = "assignments (location_columns ?d)"
  from assms(1) obtain d1 where
    run: "run_assignments ?as ?d = Inr d1"
    and out: "out = drop_columns dropColumns (drop_columns (location_columns ?d) d1)"
    by (rule flatten_Inr)
  have col: "col \<in> set (columns ?d)"
    using assms(4) by (metis columns_def domI dom_map_of_conv_image_fst set_map)
  then have mem: "(col, i, dimension) \<in> set ?as"
    using assms(3,6) by (simp add: assignment_mem location_columns_iff)
  have uniq: "\<forall>a \<in> set ?as. target a = target (col, i, dimension) \<longrightarrow> a = (col, i, dimension)"
    using assms(7) by simp
  from run_assigned [OF run location_assignments_valid mem uniq] obtain vals where
    vals: "apply_rows (coordinate col i) ?d = Inr vals"
    and m: "map_of (series d1) (str_replace ''location'' dimension col) = Some vals"
    by auto
  have "coordinate col i (row_of ?d r) = coordinate_of i (vs ! r)"
    using assms(2,4) by (rule coordinate_unique)
  moreover have "coordinate col i (row_of ?d r) = Inr (vals ! r)"
    using vals assms(5) by (simp add: apply_rows_Inr index_renamed)
  ultimately have c: "coordinate_of i (vs ! r) = Inr (vals ! r)" by simp
  have "\<not> str_contains ''location'' (str_replace ''location'' dimension col)"
    using assms(6) by (auto simp: location_replaced)
  then have "str_replace ''location'' dimension col \<notin> set (location_columns ?d)"
    by (simp add: location_columns_iff)
  then have "flat_record out r (str_replace ''location'' dimension col)
      = flat_record d1 r (str_replace ''location'' dimension col)"
    using assms(8) by (simp add: out flat_record_drop_columns)
  also have "\<dots> = Some (vals ! r)"
    using m by (simp add: flat_record_eq)
  finally show ?thesis using c by blast
qed

lemma unique_derived:
  assumes "count_list (derived_columns (location_columns d)) (str_replace ''location'' dimension col) = 1"
    and "col \<in> set (columns d)" and "str_contains ''location'' col"
    and "(i = 0 \<and> dimension = ''x'') \<or> (i = 1 \<and> dimension = ''y'')"
  shows "count_list (columns d) col = 1"
    and "\<forall>a \<in> set (assignments (location_columns d)).
           target a = str_replace ''location'' dimension col \<longrightarrow> a = (col, i, dimension)"
proof -
  let ?as = "assignments (location_columns d)"
  have one: "count_list (map target ?as) (target (col, i, dimension)) = 1"
    using assms(1) by (simp add: map_target_assignments)
  have mem: "(col, i, dimension) \<in> set ?as"
    using assms(2,3,4) by (simp add: assignment_mem location_columns_iff)
  have "count_list ?as (col, i, dimension) \<le> count_list (map target ?as) (target (col, i, dimension))"
    by (rule count_list_map_ge)
  moreover have "count_list ?as (col, i, dimension) = count_list (columns d) col"
    using assms(3,4) by (simp add: count_assignments count_location_columns)
  moreover have "count_list (columns d) col \<noteq> 0"
    using assms(2) by (simp add: count_list_0_iff)
  ultimately show "count_list (columns d) col = 1" using one by simp
  show "\<forall>a \<in> set ?as. target a = str_replace ''location'' dimension col \<longrightarrow> a = (col, i, dimension)"
    using count_list_map_unique [OF one mem] by auto
qed

lemma map_of_relabel_once:
  "count_list (map (\<lambda>(k, v). f k) xs) (f k) = 1 \<Longrightarrow> map_of xs k = Some v \<Longrightarrow>
   map_of (map (\<lambda>(k, v). (f k, v)) xs) (f k) = Some v"
proof (induction xs)
  case Nil
  then show ?case by simp
next
  case (Cons x xs)
  obtain k0 v0 where x: "x = (k0, v0)" by (cases x)
  show ?case
  proof (cases "f k0 = f k")
    case True
    with Cons.prems(1) x have "count_list (map (\<lambda>(k, v). f k) xs) (f k) = 0" by simp
    then have notin: "f k \<notin> (\<lambda>(k, v). f k) ` set xs" by (simp add: count_list_0_iff)
    have "k0 = k"
    proof (rule ccontr)
      assume "k0 \<noteq> k"
      with Cons.prems(2) x have "map_of xs k = Some v" by simp
      then have "(k, v) \<in> set xs" by (rule map_of_SomeD)
      then have "f k \<in> (\<lambda>(k, v). f k) ` set xs" by force
      with notin show False by simp
    qed
    with Cons.prems(2) x show ?thesis by simp
  next
    case False
    then have "k0 \<noteq> k" by auto
    with Cons x False show ?thesis by simp
  qed
qed

lemma renamed_cell_once:
  assumes "count_list (columns (renamed events)) (str_replace ''.'' ''_'' k) = 1"
    and "r < length events"
    and "k \<in> set (columns (json_normalize events))"
  shows "flat_record (renamed events) r (str_replace ''.'' ''_'' k) =
     Some (case map_of (normalise_json_ordered (events ! r)) k of Some v \<Rightarrow> v | None \<Rightarrow> JNull)"
proof -
  let ?vs = "map (\<lambda>e. case map_of (normalise_json_ordered e) k of Some v \<Rightarrow> v | None \<Rightarrow> JNull) events"
  have "map_of (series (json_normalize events)) k = Some ?vs"
    using assms(3) by (simp add: map_of_json_normalize)
  moreover have "map (\<lambda>(k, v). str_replace ''.'' ''_'' k) (series (json_normalize events))
      = columns (renamed events)"
    by (simp add: renamed_def columns_rename) (simp add: columns_def case_prod_unfold)
  then have "count_list (map (\<lambda>(k, v). str_replace ''.'' ''_'' k) (series (json_normalize events)))
      (str_replace ''.'' ''_'' k) = 1"
    using assms(1) by simp
  ultimately have "map_of (series (renamed events)) (str_replace ''.'' ''_'' k) = Some ?vs"
    unfolding renamed_def rename_columns_def by (simp add: map_of_relabel_once)
  then show ?thesis using assms(2) by (simp add: flat_record_eq)
qed

text \<open>The lambda raises only on a list that is too short.\<close>

lemma coordinate_Inl:
  assumes "coordinate col i (row_of d r) = Inl e" and "col \<in> set (columns d)"
  shows "e = IndexError \<and>
         (\<exists>ws xs. (col, ws) \<in> set (series d) \<and> ws ! r = JList xs \<and> \<not> i < length xs)"
proof (cases "map snd (filter (\<lambda>(c, v). c = col) (row_of d r))")
  case Nil
  have "filter (\<lambda>(c, vs). c = col) (series d) \<noteq> []"
    using assms(2) by (auto simp: columns_def filter_empty_conv)
  then have "map snd (filter (\<lambda>(c, v). c = col) (row_of d r)) \<noteq> []"
    by (simp add: filter_row_of)
  with Nil show ?thesis by simp
next
  case (Cons v0 rest)
  show ?thesis
  proof (cases rest)
    case Nil
    with Cons have one: "map snd (filter (\<lambda>(c, v). c = col) (row_of d r)) = [v0]" by simp
    then have "v0 \<in> snd ` set (filter (\<lambda>(c, v). c = col) (row_of d r))"
      by (metis list.set_intros(1) set_map)
    then have "(col, v0) \<in> set (row_of d r)" by auto
    then obtain ws where ws: "(col, ws) \<in> set (series d)" "v0 = ws ! r"
      by (auto simp: row_of_def)
    have "coordinate col i (row_of d r) = coordinate_of i v0"
      using one by (cases v0) (simp_all add: coordinate_def series_getitem_def)
    with assms(1) have cv: "coordinate_of i v0 = Inl e" by simp
    show ?thesis
    proof (cases v0)
      case (JList xs)
      with cv have "\<not> i < length xs" "e = IndexError" by (auto split: if_splits)
      moreover have "ws ! r = JList xs" using ws(2) JList by simp
      ultimately show ?thesis using ws(1) by blast
    qed (use cv in simp_all)
  next
    case c2: (Cons v1 rest')
    with Cons assms(1) show ?thesis by (simp add: coordinate_def series_getitem_def)
  qed
qed

lemma long_lists_never_raise:
  assumes "\<forall>(c, vs) \<in> set (series (renamed events)). str_contains ''location'' c \<longrightarrow>
              (\<forall>ys. JList ys \<in> set vs \<longrightarrow> 2 \<le> length ys)"
  shows "\<exists>out. flatten events dropColumns = Inr out"
proof -
  let ?d = "renamed events"
  let ?as = "assignments (location_columns ?d)"
  have "\<exists>vals. apply_rows (coordinate c i) ?d = Inr vals"
    if m: "(c, i, dimension) \<in> set ?as" for c i dimension
  proof (rule apply_rows_succeeds)
    fix q assume q: "q < index ?d"
    from m have c: "c \<in> set (columns ?d)" "str_contains ''location'' c" and i: "i < 2"
      by (auto simp: assignment_mem location_columns_iff)
    show "\<exists>v. coordinate c i (row_of ?d q) = Inr v"
    proof (cases "coordinate c i (row_of ?d q)")
      case (Inl e)
      from coordinate_Inl [OF Inl c(1)] obtain ws xs where
        ws: "(c, ws) \<in> set (series ?d)" "ws ! q = JList xs" "\<not> i < length xs" by blast
      from ws(1) have "length ws = length events" by (rule length_series_renamed)
      with q have "ws ! q \<in> set ws" by (simp add: index_renamed)
      with assms ws(1,2) c(2) have "2 \<le> length xs" by force
      with ws(3) i show ?thesis by simp
    next
      case (Inr v)
      then show ?thesis by simp
    qed
  qed
  with run_succeeds [OF location_assignments_valid] obtain d1 where
    "run_assignments ?as ?d = Inr d1" by blast
  then show ?thesis
    unfolding flatten_def renamed_def Let_def split_columns_run by simp
qed

lemma pass_end_x_assigned_once:
  "\<forall>a \<in> set (assignments (location_columns d)).
     target a = str_replace ''location'' ''x'' ''pass_end_location'' \<longrightarrow>
     a = (''pass_end_location'', 0, ''x'')"
proof
  fix a assume a: "a \<in> set (assignments (location_columns d))"
  obtain c i dm where eq: "a = (c, i, dm)" by (cases a)
  from a eq have loc: "str_contains ''location'' c"
    and dims: "(i = 0 \<and> dm = ''x'') \<or> (i = 1 \<and> dm = ''y'')"
    by (auto simp: assignment_mem location_columns_iff)
  show "target a = str_replace ''location'' ''x'' ''pass_end_location'' \<longrightarrow>
     a = (''pass_end_location'', 0, ''x'')"
  proof
    assume "target a = str_replace ''location'' ''x'' ''pass_end_location''"
    then have t: "str_replace ''location'' dm c = ''pass_end_x''"
      using eq by (simp add: pass_end_x)
    from dims have "dm = ''x'' \<or> dm = ''y''" by blast
    from only_pass_end_location_gives_x [OF loc this t]
    have "c = ''pass_end_location''" "dm = ''x''" by simp_all
    with dims eq show "a = (''pass_end_location'', 0, ''x'')" by auto
  qed
qed

lemma pass_end_y_assigned_once:
  "\<forall>a \<in> set (assignments (location_columns d)).
     target a = str_replace ''location'' ''y'' ''pass_end_location'' \<longrightarrow>
     a = (''pass_end_location'', 1, ''y'')"
proof
  fix a assume a: "a \<in> set (assignments (location_columns d))"
  obtain c i dm where eq: "a = (c, i, dm)" by (cases a)
  from a eq have loc: "str_contains ''location'' c"
    and dims: "(i = 0 \<and> dm = ''x'') \<or> (i = 1 \<and> dm = ''y'')"
    by (auto simp: assignment_mem location_columns_iff)
  show "target a = str_replace ''location'' ''y'' ''pass_end_location'' \<longrightarrow>
     a = (''pass_end_location'', 1, ''y'')"
  proof
    assume "target a = str_replace ''location'' ''y'' ''pass_end_location''"
    then have t: "str_replace ''location'' dm c = ''pass_end_y''"
      using eq by (simp add: pass_end_y)
    from dims have "dm = ''x'' \<or> dm = ''y''" by blast
    from only_pass_end_location_gives_y [OF loc this t]
    have "c = ''pass_end_location''" "dm = ''y''" by simp_all
    with dims eq show "a = (''pass_end_location'', 1, ''y'')" by auto
  qed
qed

section \<open>Evaluations of the examples\<close>

lemma flatten_two_events: "flatten two_events columns_to_remove = Inr two_events_table"
  by code_simp

lemma flatten_related_events: "flatten related_events columns_to_remove = Inr related_events_table"
  by code_simp

lemma flatten_named_location:
  "flatten [[(''location'', JStr ''Anfield'')]] columns_to_remove =
     Inr \<lparr>index = 1, series = [(''x'', [JNull]), (''y'', [JNull])]\<rparr>"
  by code_simp

section \<open>The claims\<close>

text \<open>
  C1. The single event \<^verbatim>\<open>{"type": {"name": "Pass"}, "pass": {"end_location": [10, 20]}}\<close>
  with nothing to drop gives a table of one row with exactly the columns
  \<^verbatim>\<open>type_name = "Pass"\<close>, \<^verbatim>\<open>pass_end_x = 10\<close> and \<^verbatim>\<open>pass_end_y = 20\<close>.
\<close>

theorem end_to_end_scenario:
  "flatten [pass_event] [] =
     Inr \<lparr>index = 1,
          series = [(''type_name'', [JStr ''Pass'']),
                    (''pass_end_x'', [JNum 10]),
                    (''pass_end_y'', [JNum 20])]\<rparr>"
  by code_simp

text \<open>
  C2, as amended. The claim fails when two columns of the renamed frame carry the name
  \<^verbatim>\<open>pass_end_location\<close>, as they do for an event with a key \<^verbatim>\<open>pass_end_location\<close> beside
  the key \<^verbatim>\<open>end_location\<close> under \<^verbatim>\<open>pass\<close>: the lambda then reads a Series under the name,
  not a list, and both derived cells are null, as the evaluation after the witness shows.
  What holds: when exactly one column of the renamed frame is named \<^verbatim>\<open>pass_end_location\<close>,
  an event whose field \<^verbatim>\<open>pass.end_location\<close> is \<^verbatim>\<open>[60.0, 40.0]\<close> has
  \<^verbatim>\<open>pass_end_x = 60.0\<close> and \<^verbatim>\<open>pass_end_y = 40.0\<close> in its row of the table, and the table has
  no column \<^verbatim>\<open>pass_end_location\<close>. The row exists when the loop raises nowhere, and the two
  derived columns are not among the columns to drop.
\<close>

theorem coordinate_split:
  assumes "r < length events"
    and "map_of (normalise_json_ordered (events ! r)) ''pass.end_location''
           = Some (JList [JNum 60, JNum 40])"
    and "count_list (columns (renamed events)) ''pass_end_location'' = 1"
    and "''pass_end_x'' \<notin> set dropColumns" and "''pass_end_y'' \<notin> set dropColumns"
    and "flatten events dropColumns = Inr out"
  shows "flat_record out r ''pass_end_x'' = Some (JNum 60) \<and>
         flat_record out r ''pass_end_y'' = Some (JNum 40) \<and>
         ''pass_end_location'' \<notin> set (columns out)"
proof -
  have k: "''pass.end_location'' \<in> set (columns (json_normalize events))"
    using assms(1,2) by (rule key_in_json_normalize)
  have c1: "count_list (columns (renamed events)) (str_replace ''.'' ''_'' ''pass.end_location'') = 1"
    using assms(3) by (simp only: rename_pass_end_location)
  have "flat_record (renamed events) r ''pass_end_location'' = Some (JList [JNum 60, JNum 40])"
    using renamed_cell_once [OF c1 assms(1) k] assms(2)
    by (simp only: rename_pass_end_location) simp
  then obtain vs where
    vs: "map_of (series (renamed events)) ''pass_end_location'' = Some vs"
    and cell: "vs ! r = JList [JNum 60, JNum 40]"
    using flat_record_Some_series by blast
  have x: "\<exists>v. coordinate_of 0 (vs ! r) = Inr v \<and> flat_record out r ''pass_end_x'' = Some v"
    using derived_column [where i = 0 and dimension = "''x''",
        OF assms(6,3) pass_end_location_contains vs assms(1) _ pass_end_x_assigned_once] assms(4)
    by (simp only: pass_end_x) simp
  have y: "\<exists>v. coordinate_of 1 (vs ! r) = Inr v \<and> flat_record out r ''pass_end_y'' = Some v"
    using derived_column [where i = 1 and dimension = "''y''",
        OF assms(6,3) pass_end_location_contains vs assms(1) _ pass_end_y_assigned_once] assms(5)
    by (simp only: pass_end_y) simp
  have "''pass_end_location'' \<notin> set (derived_columns (location_columns (renamed events)))"
    using pass_end_location_contains derived_not_location by blast
  then have "''pass_end_location'' \<notin> set (columns out)"
    by (simp add: columns_flatten [OF assms(6)] pass_end_location_contains)
  with x y cell show ?thesis by auto
qed

theorem coordinate_split_witness:
  "flatten two_events columns_to_remove = Inr two_events_table \<and>
   flat_record two_events_table 0 ''pass_end_x'' = Some (JNum 60) \<and>
   flat_record two_events_table 0 ''pass_end_y'' = Some (JNum 40) \<and>
   ''pass_end_location'' \<notin> set (columns two_events_table)"
proof -
  have h1: "0 < length two_events" by code_simp
  have h2: "map_of (normalise_json_ordered (two_events ! 0)) ''pass.end_location''
              = Some (JList [JNum 60, JNum 40])" by code_simp
  have h3: "count_list (columns (renamed two_events)) ''pass_end_location'' = 1" by code_simp
  have h4: "''pass_end_x'' \<notin> set columns_to_remove" by code_simp
  have h5: "''pass_end_y'' \<notin> set columns_to_remove" by code_simp
  from coordinate_split [OF h1 h2 h3 h4 h5 flatten_two_events]
  show ?thesis using flatten_two_events by simp
qed

theorem repeated_name_gives_null:
  "map_of (normalise_json_ordered
       [(''pass_end_location'', JList [JNum 1, JNum 2]),
        (''pass'', JDict [(''end_location'', JList [JNum 60, JNum 40])])]) ''pass.end_location''
     = Some (JList [JNum 60, JNum 40]) \<and>
   flatten [[(''pass_end_location'', JList [JNum 1, JNum 2]),
             (''pass'', JDict [(''end_location'', JList [JNum 60, JNum 40])])]] [] =
     Inr \<lparr>index = 1, series = [(''pass_end_x'', [JNull]), (''pass_end_y'', [JNull])]\<rparr>"
  by code_simp

text \<open>
  C3, as amended. The claim that every value of the table is a scalar fails: a list under a
  name that neither contains \<^verbatim>\<open>location\<close> nor is dropped stays a list, as the
  evaluation after the witness shows. What holds: when every list of the renamed frame is under a
  name to drop or under a location name, and the lists under location names start with two
  scalars, every value of the table is a scalar.
\<close>

theorem scalars_when_lists_are_split_or_dropped:
  assumes "flatten events dropColumns = Inr out"
    and "\<forall>(c, vs) \<in> set (series (renamed events)).
           (str_contains ''location'' c \<longrightarrow> list_all splits_to_scalars vs) \<and>
           (\<not> str_contains ''location'' c \<longrightarrow> c \<in> set dropColumns \<or> list_all is_scalar vs)"
  shows "\<forall>(c, vs) \<in> set (series out). list_all is_scalar vs"
proof -
  let ?d = "renamed events"
  let ?L = "location_columns ?d"
  from assms(1) obtain d1 where
    run: "run_assignments (assignments ?L) ?d = Inr d1"
    and out: "out = drop_columns dropColumns (drop_columns ?L d1)"
    by (rule flatten_Inr)
  have sp: "splittable ?d"
    using assms(2) by (auto simp: splittable_def index_renamed dest: length_series_renamed)
  have inv: "\<forall>(c, vs) \<in> set (series ?d). \<not> str_contains ''location'' c \<longrightarrow>
      c \<in> set dropColumns \<or> list_all is_scalar vs"
    using assms(2) by blast
  have d1: "\<forall>(c, vs) \<in> set (series d1). \<not> str_contains ''location'' c \<longrightarrow>
      c \<in> set dropColumns \<or> list_all is_scalar vs"
    by (rule run_keeps_scalars [OF run location_assignments_valid sp inv])
  have "list_all is_scalar vs" if m: "(c, vs) \<in> set (series out)" for c vs
  proof -
    from m have in1: "(c, vs) \<in> set (series d1)" and nl: "c \<notin> set ?L" and nd: "c \<notin> set dropColumns"
      by (auto simp: out series_drop_columns)
    from in1 have "c \<in> set (columns d1)" by (force simp: columns_def)
    then have "c \<in> set (columns ?d) \<or> c \<in> set (derived_columns ?L)"
      using run_columns [OF run] by (simp add: map_target_assignments [symmetric] del: target.simps)
    then have "\<not> str_contains ''location'' c"
      using nl derived_not_location by (auto simp: location_columns_iff)
    with d1 in1 nd show ?thesis by blast
  qed
  then show ?thesis by blast
qed

theorem scalars_when_lists_are_split_or_dropped_witness:
  "flatten related_events columns_to_remove = Inr related_events_table \<and>
   list_all (\<lambda>(c, vs). list_all is_scalar vs) (series related_events_table)"
proof -
  have h: "\<forall>(c, vs) \<in> set (series (renamed related_events)).
           (str_contains ''location'' c \<longrightarrow> list_all splits_to_scalars vs) \<and>
           (\<not> str_contains ''location'' c \<longrightarrow> c \<in> set columns_to_remove \<or> list_all is_scalar vs)"
    by code_simp
  from scalars_when_lists_are_split_or_dropped [OF flatten_related_events h]
  show ?thesis using flatten_related_events by (simp add: list_all_iff)
qed

theorem list_value_survives:
  "flatten [[(''tags'', JList [JStr ''a'', JStr ''b''])]]
       [''tactics_lineup'', ''related_events'', ''shot_freeze_frame''] =
     Inr \<lparr>index = 1, series = [(''tags'', [JList [JStr ''a'', JStr ''b'']])]\<rparr> \<and>
   \<not> is_scalar (JList [JStr ''a'', JStr ''b''])"
  by code_simp

text \<open>
  C4, as amended. The claim that a value which is not a two-element list gives null in
  both derived columns fails for a list of three elements, which gives its first two, as
  the evaluation after the witness shows. What holds, for a field \<open>k\<close> that some event of the
  input has and whose renamed name contains \<^verbatim>\<open>location\<close>: an event without the field, or
  with a value there that is not a list, has null in both derived columns, when the loop
  assigns to each of the two derived names once (no other location column gives the
  same name), neither is among the columns to drop, and the loop raises nowhere.
\<close>

theorem null_for_missing_or_not_a_list:
  assumes "r < length events"
    and "k \<in> set (columns (json_normalize events))"
    and "str_contains ''location'' (str_replace ''.'' ''_'' k)"
    and "count_list (derived_columns (location_columns (renamed events)))
           (str_replace ''location'' ''x'' (str_replace ''.'' ''_'' k)) = 1"
    and "count_list (derived_columns (location_columns (renamed events)))
           (str_replace ''location'' ''y'' (str_replace ''.'' ''_'' k)) = 1"
    and "str_replace ''location'' ''x'' (str_replace ''.'' ''_'' k) \<notin> set dropColumns"
    and "str_replace ''location'' ''y'' (str_replace ''.'' ''_'' k) \<notin> set dropColumns"
    and "flatten events dropColumns = Inr out"
  shows "(map_of (normalise_json_ordered (events ! r)) k = None \<longrightarrow>
            flat_record out r (str_replace ''location'' ''x'' (str_replace ''.'' ''_'' k)) = Some JNull \<and>
            flat_record out r (str_replace ''location'' ''y'' (str_replace ''.'' ''_'' k)) = Some JNull) \<and>
         (\<forall>v. map_of (normalise_json_ordered (events ! r)) k = Some v \<longrightarrow> \<not> is_list v \<longrightarrow>
            flat_record out r (str_replace ''location'' ''x'' (str_replace ''.'' ''_'' k)) = Some JNull \<and>
            flat_record out r (str_replace ''location'' ''y'' (str_replace ''.'' ''_'' k)) = Some JNull)"
proof -
  let ?col = "str_replace ''.'' ''_'' k"
  let ?v = "case map_of (normalise_json_ordered (events ! r)) k of Some w \<Rightarrow> w | None \<Rightarrow> JNull"
  have col: "?col \<in> set (columns (renamed events))"
    using assms(2) by (simp add: columns_renamed)
  have once: "count_list (columns (renamed events)) ?col = 1"
    using unique_derived(1) [where i = 0, OF assms(4) col assms(3)] by simp
  have ux: "\<forall>a \<in> set (assignments (location_columns (renamed events))).
           target a = str_replace ''location'' ''x'' ?col \<longrightarrow> a = (?col, 0, ''x'')"
    using unique_derived(2) [where i = 0, OF assms(4) col assms(3)] by simp
  have uy: "\<forall>a \<in> set (assignments (location_columns (renamed events))).
           target a = str_replace ''location'' ''y'' ?col \<longrightarrow> a = (?col, 1, ''y'')"
    using unique_derived(2) [where i = 1, OF assms(5) col assms(3)] by simp
  have "flat_record (renamed events) r ?col = Some ?v"
    using renamed_cell_once [OF once assms(1,2)] .
  then obtain vs where
    vs: "map_of (series (renamed events)) ?col = Some vs" and cell: "vs ! r = ?v"
    using flat_record_Some_series by blast
  have x: "\<exists>v. coordinate_of 0 ?v = Inr v \<and> flat_record out r (str_replace ''location'' ''x'' ?col) = Some v"
    using derived_column [OF assms(8) once assms(3) vs assms(1) _ ux] assms(6) cell by simp
  have y: "\<exists>v. coordinate_of 1 ?v = Inr v \<and> flat_record out r (str_replace ''location'' ''y'' ?col) = Some v"
    using derived_column [OF assms(8) once assms(3) vs assms(1) _ uy] assms(7) cell by simp
  have null: "\<not> is_list v \<Longrightarrow> coordinate_of i v = Inr JNull" for i v
    by (cases v) simp_all
  have a: "flat_record out r (str_replace ''location'' ''x'' ?col) = Some JNull \<and>
           flat_record out r (str_replace ''location'' ''y'' ?col) = Some JNull"
    if "map_of (normalise_json_ordered (events ! r)) k = None"
    using x y that by simp
  have b: "flat_record out r (str_replace ''location'' ''x'' ?col) = Some JNull \<and>
           flat_record out r (str_replace ''location'' ''y'' ?col) = Some JNull"
    if "map_of (normalise_json_ordered (events ! r)) k = Some v" "\<not> is_list v" for v
    using x y that null by simp
  from a b show ?thesis by blast
qed

theorem null_for_missing_or_not_a_list_witness:
  "flatten two_events columns_to_remove = Inr two_events_table \<and>
   flat_record two_events_table 1 ''pass_end_x'' = Some JNull \<and>
   flat_record two_events_table 1 ''pass_end_y'' = Some JNull \<and>
   flatten [[(''location'', JStr ''Anfield'')]] columns_to_remove =
     Inr \<lparr>index = 1, series = [(''x'', [JNull]), (''y'', [JNull])]\<rparr> \<and>
   flat_record \<lparr>index = 1, series = [(''x'', [JNull]), (''y'', [JNull])]\<rparr> 0 ''x'' = Some JNull \<and>
   flat_record \<lparr>index = 1, series = [(''x'', [JNull]), (''y'', [JNull])]\<rparr> 0 ''y'' = Some JNull"
proof -
  have r: "1 < length two_events" by code_simp
  have p1: "''pass.end_location'' \<in> set (columns (json_normalize two_events))" by code_simp
  have p2: "str_contains ''location'' (str_replace ''.'' ''_'' ''pass.end_location'')" by code_simp
  have c1: "count_list (derived_columns (location_columns (renamed two_events)))
              (str_replace ''location'' ''x'' (str_replace ''.'' ''_'' ''pass.end_location'')) = 1"
    by code_simp
  have c2: "count_list (derived_columns (location_columns (renamed two_events)))
              (str_replace ''location'' ''y'' (str_replace ''.'' ''_'' ''pass.end_location'')) = 1"
    by code_simp
  have p3: "str_replace ''location'' ''x'' (str_replace ''.'' ''_'' ''pass.end_location'')
              \<notin> set columns_to_remove" by code_simp
  have p4: "str_replace ''location'' ''y'' (str_replace ''.'' ''_'' ''pass.end_location'')
              \<notin> set columns_to_remove" by code_simp
  have p5: "map_of (normalise_json_ordered (two_events ! 1)) ''pass.end_location'' = None"
    by code_simp
  have px: "str_replace ''location'' ''x'' (str_replace ''.'' ''_'' ''pass.end_location'') = ''pass_end_x''"
    by code_simp
  have py: "str_replace ''location'' ''y'' (str_replace ''.'' ''_'' ''pass.end_location'') = ''pass_end_y''"
    by code_simp
  let ?ev = "[[(''location'', JStr ''Anfield'')]]"
  have q0: "0 < length ?ev" by simp
  have q1: "''location'' \<in> set (columns (json_normalize ?ev))" by code_simp
  have q2: "str_contains ''location'' (str_replace ''.'' ''_'' ''location'')" by code_simp
  have d1: "count_list (derived_columns (location_columns (renamed ?ev)))
              (str_replace ''location'' ''x'' (str_replace ''.'' ''_'' ''location'')) = 1"
    by code_simp
  have d2: "count_list (derived_columns (location_columns (renamed ?ev)))
              (str_replace ''location'' ''y'' (str_replace ''.'' ''_'' ''location'')) = 1"
    by code_simp
  have q3: "str_replace ''location'' ''x'' (str_replace ''.'' ''_'' ''location'')
              \<notin> set columns_to_remove" by code_simp
  have q4: "str_replace ''location'' ''y'' (str_replace ''.'' ''_'' ''location'')
              \<notin> set columns_to_remove" by code_simp
  have q5: "map_of (normalise_json_ordered (?ev ! 0)) ''location'' = Some (JStr ''Anfield'')"
    by code_simp
  have q6: "\<not> is_list (JStr ''Anfield'')" by simp
  have qx: "str_replace ''location'' ''x'' (str_replace ''.'' ''_'' ''location'') = ''x''"
    by code_simp
  have qy: "str_replace ''location'' ''y'' (str_replace ''.'' ''_'' ''location'') = ''y''"
    by code_simp
  have "flat_record two_events_table 1 ''pass_end_x'' = Some JNull \<and>
        flat_record two_events_table 1 ''pass_end_y'' = Some JNull"
    using null_for_missing_or_not_a_list
            [OF r p1 p2 c1 c2 p3 p4 flatten_two_events] p5
    unfolding px py by blast
  moreover have
    "flat_record \<lparr>index = 1, series = [(''x'', [JNull]), (''y'', [JNull])]\<rparr> 0 ''x'' = Some JNull \<and>
     flat_record \<lparr>index = 1, series = [(''x'', [JNull]), (''y'', [JNull])]\<rparr> 0 ''y'' = Some JNull"
    using null_for_missing_or_not_a_list
            [OF q0 q1 q2 d1 d2 q3 q4 flatten_named_location] q5 q6
    unfolding qx qy by blast
  ultimately show ?thesis using flatten_two_events flatten_named_location by simp
qed

theorem three_element_list_is_split:
  "flatten [[(''pass'', JDict [(''end_location'', JList [JNum 1, JNum 2, JNum 3])])]]
       [''tactics_lineup'', ''related_events'', ''shot_freeze_frame''] =
     Inr \<lparr>index = 1, series = [(''pass_end_x'', [JNum 1]), (''pass_end_y'', [JNum 2])]\<rparr> \<and>
   length [JNum 1, JNum 2, JNum 3] \<noteq> 2 \<and> JNum 1 \<noteq> JNull \<and> JNum 2 \<noteq> JNull"
  by code_simp




text \<open>
  C6, as amended. The claim that no column derived from a dropped name is left fails: the
  selection compares whole names, so the flattened fields of a mapping under
  \<^verbatim>\<open>tactics.lineup\<close> stay, as the evaluation after the witness shows. What holds: no
  column of the table has a name that is in the list, whatever the field held.
\<close>

theorem dropped_name_absent:
  assumes "flatten events dropColumns = Inr out" and "c \<in> set dropColumns"
  shows "c \<notin> set (columns out) \<and> flat_record out r c = None"
proof -
  from assms(1) obtain d1 where
    out: "out = drop_columns dropColumns (drop_columns (location_columns (renamed events)) d1)"
    by (rule flatten_Inr)
  show ?thesis using assms(2) by (simp add: out columns_drop_columns flat_record_drop_columns)
qed

theorem dropped_name_absent_witness:
  "flatten related_events columns_to_remove = Inr related_events_table \<and>
   ''related_events'' \<in> set (columns (renamed related_events)) \<and>
   ''related_events'' \<notin> set (columns related_events_table) \<and>
   flat_record related_events_table 1 ''related_events'' = None"
proof -
  have h: "''related_events'' \<in> set columns_to_remove" by code_simp
  have c: "''related_events'' \<in> set (columns (renamed related_events))" by code_simp
  from dropped_name_absent [OF flatten_related_events h, of 1]
  show ?thesis using flatten_related_events c by simp
qed

theorem nested_fields_of_dropped_name_survive:
  "flatten [[(''tactics'', JDict [(''lineup'', JDict [(''formation'', JNum 442)])])]]
       [''tactics_lineup''] =
     Inr \<lparr>index = 1, series = [(''tactics_lineup_formation'', [JNum 442])]\<rparr> \<and>
   prefix ''tactics_lineup'' ''tactics_lineup_formation''"
  by code_simp

text \<open>
  C8, as amended. The claim that every leaf outside the drop list and the split of
  two-element arrays reaches the table unchanged fails: a scalar under a name that
  contains \<^verbatim>\<open>location\<close> is replaced by two nulls, the third element of a location list is
  left out, and a column is overwritten when a derived name is its name, as the
  evaluation after the witness shows. What holds, for an entry \<open>(k, v)\<close> of an event as
  \<^verbatim>\<open>json_normalize\<close> flattens it: when the renamed name of \<open>k\<close> is the name of exactly one
  column of the renamed frame, is not assigned to by the split loop, does not contain
  \<^verbatim>\<open>location\<close> and is not among the columns to drop, and \<open>v\<close> is a value that every dtype
  stores exactly, then \<open>v\<close> is in the event's row of the table, unchanged, under the renamed
  name, whenever the loop raises nowhere.
\<close>

theorem leaf_kept_unchanged:
  assumes "r < length events"
    and "map_of (normalise_json_ordered (events ! r)) k = Some v"
    and "count_list (columns (renamed events)) (str_replace ''.'' ''_'' k) = 1"
    and "str_replace ''.'' ''_'' k \<notin> set (derived_columns (location_columns (renamed events)))"
    and "\<not> str_contains ''location'' (str_replace ''.'' ''_'' k)"
    and "str_replace ''.'' ''_'' k \<notin> set dropColumns"
    and "stored_exactly v"
    and "flatten events dropColumns = Inr out"
  shows "flat_record out r (str_replace ''.'' ''_'' k) = Some v"
proof -
  let ?col = "str_replace ''.'' ''_'' k"
  have k: "k \<in> set (columns (json_normalize events))"
    using assms(1,2) by (rule key_in_json_normalize)
  have "flat_record out r ?col = flat_record (renamed events) r ?col"
    using assms(8,4,5,6) by (rule kept_column)
  also have "\<dots> = Some v"
    using renamed_cell_once [OF assms(3,1) k] assms(2) by simp
  finally show ?thesis .
qed

theorem leaf_kept_unchanged_witness:
  "flatten two_events columns_to_remove = Inr two_events_table \<and>
   flat_record two_events_table 1 ''type_name'' = Some (JStr ''Shot'') \<and>
   flat_record two_events_table 1 ''shot_xg'' = Some (JNum (1 / 2))"
proof -
  have r: "1 < length two_events" by code_simp
  have t2: "map_of (normalise_json_ordered (two_events ! 1)) ''type.name'' = Some (JStr ''Shot'')"
    by code_simp
  have t3: "count_list (columns (renamed two_events)) (str_replace ''.'' ''_'' ''type.name'') = 1"
    by code_simp
  have t4: "str_replace ''.'' ''_'' ''type.name''
      \<notin> set (derived_columns (location_columns (renamed two_events)))" by code_simp
  have t5: "\<not> str_contains ''location'' (str_replace ''.'' ''_'' ''type.name'')" by code_simp
  have t6: "str_replace ''.'' ''_'' ''type.name'' \<notin> set columns_to_remove" by code_simp
  have t7: "stored_exactly (JStr ''Shot'')" by simp
  have tn: "str_replace ''.'' ''_'' ''type.name'' = ''type_name''" by code_simp
  have x2: "map_of (normalise_json_ordered (two_events ! 1)) ''shot.xg'' = Some (JNum (1 / 2))"
    by code_simp
  have x3: "count_list (columns (renamed two_events)) (str_replace ''.'' ''_'' ''shot.xg'') = 1"
    by code_simp
  have x4: "str_replace ''.'' ''_'' ''shot.xg''
      \<notin> set (derived_columns (location_columns (renamed two_events)))" by code_simp
  have x5: "\<not> str_contains ''location'' (str_replace ''.'' ''_'' ''shot.xg'')" by code_simp
  have x6: "str_replace ''.'' ''_'' ''shot.xg'' \<notin> set columns_to_remove" by code_simp
  have x7: "stored_exactly (JNum (1 / 2))" by code_simp
  have "flat_record two_events_table 1 ''type_name'' = Some (JStr ''Shot'')"
    using leaf_kept_unchanged [OF r t2 t3 t4 t5 t6 t7 flatten_two_events]
    unfolding tn .
  moreover have "flat_record two_events_table 1 ''shot_xg'' = Some (JNum (1 / 2))"
    using leaf_kept_unchanged [OF r x2 x3 x4 x5 x6 x7 flatten_two_events]
    unfolding rename_shot_xg .
  ultimately show ?thesis using flatten_two_events by simp
qed

theorem leaves_lost_by_the_split:
  "flatten [[(''x'', JNum 5), (''location_name'', JStr ''Anfield''),
             (''location'', JList [JNum 1, JNum 2, JNum 3])]]
       [''tactics_lineup'', ''related_events'', ''shot_freeze_frame''] =
     Inr \<lparr>index = 1,
          series = [(''x'', [JNum 1]), (''x_name'', [JNull]), (''y_name'', [JNull]),
                    (''y'', [JNum 2])]\<rparr>"
  by code_simp

text \<open>
  C9. Which columns are split is a matter of their names alone: the columns of the table
  are the renamed columns whose name does not contain \<^verbatim>\<open>location\<close>, and for each renamed
  column whose name contains it the two names got by replacing \<^verbatim>\<open>location\<close> by \<^verbatim>\<open>x\<close>
  and by \<^verbatim>\<open>y\<close>, less the names to drop, with no condition on the values the columns
  hold. The replacement leaves no occurrence of \<^verbatim>\<open>location\<close> in a name.
\<close>

theorem split_by_name:
  assumes "flatten events dropColumns = Inr out"
  shows "set (columns out) =
           ({c \<in> set (columns (renamed events)). \<not> str_contains ''location'' c}
            \<union> (\<Union>c \<in> {c \<in> set (columns (renamed events)). str_contains ''location'' c}.
                 {str_replace ''location'' ''x'' c, str_replace ''location'' ''y'' c}))
           - set dropColumns
         \<and> (\<forall>c. \<not> str_contains ''location'' (str_replace ''location'' ''x'' c)
               \<and> \<not> str_contains ''location'' (str_replace ''location'' ''y'' c))"
proof -
  have names: "set (columns out) =
           ({c \<in> set (columns (renamed events)). \<not> str_contains ''location'' c}
            \<union> (\<Union>c \<in> {c \<in> set (columns (renamed events)). str_contains ''location'' c}.
                 {str_replace ''location'' ''x'' c, str_replace ''location'' ''y'' c}))
           - set dropColumns"
    using columns_flatten [OF assms] by (simp only: set_derived_columns)
  have gone: "\<forall>c. \<not> str_contains ''location'' (str_replace ''location'' ''x'' c)
               \<and> \<not> str_contains ''location'' (str_replace ''location'' ''y'' c)"
    by (simp add: location_replaced)
  from names gone show ?thesis by blast
qed

theorem split_by_name_witness:
  "flatten two_events columns_to_remove = Inr two_events_table \<and>
   set (columns two_events_table) =
     {''type_name'', ''shot_xg'', ''pass_end_x'', ''pass_end_y'', ''shot_end_x'', ''shot_end_y''} \<and>
   \<not> str_contains ''location'' (str_replace ''location'' ''x'' ''locationlocation'')"
proof -
  have cols: "columns (renamed two_events) =
      [''type_name'', ''pass_end_location'', ''shot_xg'', ''shot_end_location'']"
    by code_simp
  have c1: "\<not> str_contains ''location'' ''type_name''" by code_simp
  have c2: "str_contains ''location'' ''pass_end_location''" by code_simp
  have c3: "\<not> str_contains ''location'' ''shot_xg''" by code_simp
  have c4: "str_contains ''location'' ''shot_end_location''" by code_simp
  have kept: "{c \<in> set (columns (renamed two_events)). \<not> str_contains ''location'' c}
      = {''type_name'', ''shot_xg''}"
    unfolding cols using c1 c2 c3 c4 by auto
  have locs: "{c \<in> set (columns (renamed two_events)). str_contains ''location'' c}
      = {''pass_end_location'', ''shot_end_location''}"
    unfolding cols using c1 c2 c3 c4 by auto
  have sx: "str_replace ''location'' ''x'' ''shot_end_location'' = ''shot_end_x''" by code_simp
  have sy: "str_replace ''location'' ''y'' ''shot_end_location'' = ''shot_end_y''" by code_simp
  have rm: "set columns_to_remove = {''tactics_lineup'', ''related_events'', ''shot_freeze_frame''}"
    by (simp add: columns_to_remove_def)
  from split_by_name [OF flatten_two_events]
  have names: "set (columns two_events_table) =
           ({c \<in> set (columns (renamed two_events)). \<not> str_contains ''location'' c}
            \<union> (\<Union>c \<in> {c \<in> set (columns (renamed two_events)). str_contains ''location'' c}.
                 {str_replace ''location'' ''x'' c, str_replace ''location'' ''y'' c}))
           - set columns_to_remove"
    and gone: "\<not> str_contains ''location'' (str_replace ''location'' ''x'' ''locationlocation'')"
    by blast+
  from names have "set (columns two_events_table) =
      ({''type_name'', ''shot_xg''}
        \<union> {''pass_end_x'', ''pass_end_y'', ''shot_end_x'', ''shot_end_y''})
      - {''tactics_lineup'', ''related_events'', ''shot_freeze_frame''}"
    unfolding kept locs rm by (auto simp: pass_end_x pass_end_y sx sy)
  then show ?thesis using gone flatten_two_events by auto
qed

text \<open>
  C10, as amended. The claim that a list of fewer than two elements under a location name
  ends the run in an \<^verbatim>\<open>IndexError\<close> fails when two columns carry that name: the lambda
  reads a Series, not a list, and gives null, as the evaluation after the witness shows.
  What holds, when exactly one column of the renamed frame carries the location name and
  a row holds a list there: a list of fewer than two elements makes the run end in
  \<^verbatim>\<open>IndexError\<close>; when the loop raises nowhere the list has at least two elements and,
  the two derived names being assigned to once each and not among the columns to drop,
  the row gets the list's element 0 and element 1 (each when it is a value that every
  dtype stores exactly), whatever follows them; and when every list under a location
  name has two or more elements, the loop raises nowhere.
\<close>

theorem location_list_length:
  assumes "r < length events"
    and "str_contains ''location'' col"
    and "count_list (columns (renamed events)) col = 1"
    and "flat_record (renamed events) r col = Some (JList xs)"
  shows "(length xs < 2 \<longrightarrow> flatten events dropColumns = Inl IndexError) \<and>
         (\<forall>out. flatten events dropColumns = Inr out \<longrightarrow>
            count_list (derived_columns (location_columns (renamed events)))
              (str_replace ''location'' ''x'' col) = 1 \<longrightarrow>
            count_list (derived_columns (location_columns (renamed events)))
              (str_replace ''location'' ''y'' col) = 1 \<longrightarrow>
            str_replace ''location'' ''x'' col \<notin> set dropColumns \<longrightarrow>
            str_replace ''location'' ''y'' col \<notin> set dropColumns \<longrightarrow>
            2 \<le> length xs \<and>
            (stored_exactly (xs ! 0) \<longrightarrow>
               flat_record out r (str_replace ''location'' ''x'' col) = Some (xs ! 0)) \<and>
            (stored_exactly (xs ! 1) \<longrightarrow>
               flat_record out r (str_replace ''location'' ''y'' col) = Some (xs ! 1))) \<and>
         ((\<forall>(c, vs) \<in> set (series (renamed events)). str_contains ''location'' c \<longrightarrow>
              (\<forall>ys. JList ys \<in> set vs \<longrightarrow> 2 \<le> length ys)) \<longrightarrow>
          (\<exists>out. flatten events dropColumns = Inr out))"
proof -
  let ?d = "renamed events"
  let ?as = "assignments (location_columns ?d)"
  from assms(4) obtain vs where
    vs: "map_of (series ?d) col = Some vs" and cell: "vs ! r = JList xs"
    using flat_record_Some_series by blast
  have col: "col \<in> set (columns ?d)"
    using vs by (metis columns_def domI dom_map_of_conv_image_fst set_map)
  have short: "flatten events dropColumns = Inl IndexError" if "length xs < 2"
  proof -
    have "coordinate col 1 (row_of ?d r) = coordinate_of 1 (vs ! r)"
      using assms(3) vs by (rule coordinate_unique)
    then have "coordinate col 1 (row_of ?d r) = Inl IndexError"
      using that cell by simp
    moreover have "r < index ?d" using assms(1) by (simp add: index_renamed)
    ultimately obtain e where "apply_rows (coordinate col 1) ?d = Inl e"
      using apply_rows_fails by blast
    moreover have "(col, 1, ''y'') \<in> set ?as"
      using col assms(2) by (simp add: assignment_mem location_columns_iff)
    ultimately obtain e' where "run_assignments ?as ?d = Inl e'"
      using run_fails [OF location_assignments_valid] by blast
    then have f: "flatten events dropColumns = Inl e'" by (simp add: flatten_Inl)
    with flatten_error_is_IndexError show ?thesis by blast
  qed
  have long: "2 \<le> length xs \<and>
            (stored_exactly (xs ! 0) \<longrightarrow>
               flat_record out r (str_replace ''location'' ''x'' col) = Some (xs ! 0)) \<and>
            (stored_exactly (xs ! 1) \<longrightarrow>
               flat_record out r (str_replace ''location'' ''y'' col) = Some (xs ! 1))"
    if out: "flatten events dropColumns = Inr out"
      and cx: "count_list (derived_columns (location_columns ?d)) (str_replace ''location'' ''x'' col) = 1"
      and cy: "count_list (derived_columns (location_columns ?d)) (str_replace ''location'' ''y'' col) = 1"
      and nx: "str_replace ''location'' ''x'' col \<notin> set dropColumns"
      and ny: "str_replace ''location'' ''y'' col \<notin> set dropColumns" for out
  proof -
    have ux: "\<forall>a \<in> set ?as. target a = str_replace ''location'' ''x'' col \<longrightarrow> a = (col, 0, ''x'')"
      using unique_derived(2) [where i = 0, OF cx col assms(2)] by simp
    have uy: "\<forall>a \<in> set ?as. target a = str_replace ''location'' ''y'' col \<longrightarrow> a = (col, 1, ''y'')"
      using unique_derived(2) [where i = 1, OF cy col assms(2)] by simp
    have "\<exists>v. coordinate_of 0 (vs ! r) = Inr v \<and> flat_record out r (str_replace ''location'' ''x'' col) = Some v"
      using derived_column [OF out assms(3,2) vs assms(1) _ ux] nx by simp
    moreover have "\<exists>v. coordinate_of 1 (vs ! r) = Inr v \<and> flat_record out r (str_replace ''location'' ''y'' col) = Some v"
      using derived_column [OF out assms(3,2) vs assms(1) _ uy] ny by simp
    ultimately show ?thesis using cell by (auto split: if_splits)
  qed
  have ok: "\<exists>out. flatten events dropColumns = Inr out"
    if "\<forall>(c, vs) \<in> set (series ?d). str_contains ''location'' c \<longrightarrow>
              (\<forall>ys. JList ys \<in> set vs \<longrightarrow> 2 \<le> length ys)"
    using that by (rule long_lists_never_raise)
  from short long ok show ?thesis by blast
qed

theorem location_list_length_witness:
  "flatten [short_event] columns_to_remove = Inl IndexError \<and>
   flatten two_events columns_to_remove = Inr two_events_table \<and>
   flat_record two_events_table 1 ''shot_end_x'' = Some (JNum 1) \<and>
   flat_record two_events_table 1 ''shot_end_y'' = Some (JNum 2)"
proof -
  have a1: "0 < length [short_event]" by simp
  have a2: "str_contains ''location'' ''location''" by code_simp
  have a3: "count_list (columns (renamed [short_event])) ''location'' = 1" by code_simp
  have a4: "flat_record (renamed [short_event]) 0 ''location'' = Some (JList [JNum 1])"
    by code_simp
  have short: "flatten [short_event] columns_to_remove = Inl IndexError"
    using location_list_length [OF a1 a2 a3 a4, of columns_to_remove] by simp
  have b1: "1 < length two_events" by code_simp
  have b2: "str_contains ''location'' ''shot_end_location''" by code_simp
  have b3: "count_list (columns (renamed two_events)) ''shot_end_location'' = 1" by code_simp
  have b4: "flat_record (renamed two_events) 1 ''shot_end_location''
              = Some (JList [JNum 1, JNum 2, JNum 3])" by code_simp
  have sx: "str_replace ''location'' ''x'' ''shot_end_location'' = ''shot_end_x''" by code_simp
  have sy: "str_replace ''location'' ''y'' ''shot_end_location'' = ''shot_end_y''" by code_simp
  have cx: "count_list (derived_columns (location_columns (renamed two_events))) ''shot_end_x'' = 1"
    by code_simp
  have cy: "count_list (derived_columns (location_columns (renamed two_events))) ''shot_end_y'' = 1"
    by code_simp
  have nx: "''shot_end_x'' \<notin> set columns_to_remove" by code_simp
  have ny: "''shot_end_y'' \<notin> set columns_to_remove" by code_simp
  have e0: "stored_exactly ([JNum 1, JNum 2, JNum 3] ! 0)" by code_simp
  have e1: "stored_exactly ([JNum 1, JNum 2, JNum 3] ! 1)" by code_simp
  have ser: "series (renamed two_events) =
      [(''type_name'', [JStr ''Pass'', JStr ''Shot'']),
       (''pass_end_location'', [JList [JNum 60, JNum 40], JNull]),
       (''shot_xg'', [JNull, JNum (1 / 2)]),
       (''shot_end_location'', [JNull, JList [JNum 1, JNum 2, JNum 3]])]"
    by code_simp
  have all: "\<forall>(c, vs) \<in> set (series (renamed two_events)). str_contains ''location'' c \<longrightarrow>
              (\<forall>ys. JList ys \<in> set vs \<longrightarrow> 2 \<le> length ys)"
    unfolding ser by auto
  from location_list_length [OF b1 b2 b3 b4, of columns_to_remove]
  have long: "\<forall>out. flatten two_events columns_to_remove = Inr out \<longrightarrow>
            count_list (derived_columns (location_columns (renamed two_events))) ''shot_end_x'' = 1 \<longrightarrow>
            count_list (derived_columns (location_columns (renamed two_events))) ''shot_end_y'' = 1 \<longrightarrow>
            ''shot_end_x'' \<notin> set columns_to_remove \<longrightarrow>
            ''shot_end_y'' \<notin> set columns_to_remove \<longrightarrow>
            2 \<le> length [JNum 1, JNum 2, JNum 3] \<and>
            (stored_exactly ([JNum 1, JNum 2, JNum 3] ! 0) \<longrightarrow>
               flat_record out 1 ''shot_end_x'' = Some ([JNum 1, JNum 2, JNum 3] ! 0)) \<and>
            (stored_exactly ([JNum 1, JNum 2, JNum 3] ! 1) \<longrightarrow>
               flat_record out 1 ''shot_end_y'' = Some ([JNum 1, JNum 2, JNum 3] ! 1))"
    and ok: "(\<forall>(c, vs) \<in> set (series (renamed two_events)). str_contains ''location'' c \<longrightarrow>
              (\<forall>ys. JList ys \<in> set vs \<longrightarrow> 2 \<le> length ys)) \<longrightarrow>
          (\<exists>out. flatten two_events columns_to_remove = Inr out)"
    unfolding sx sy by blast+
  from long flatten_two_events cx cy nx ny e0 e1
  have "flat_record two_events_table 1 ''shot_end_x'' = Some ([JNum 1, JNum 2, JNum 3] ! 0) \<and>
        flat_record two_events_table 1 ''shot_end_y'' = Some ([JNum 1, JNum 2, JNum 3] ! 1)"
    by blast
  then have "flat_record two_events_table 1 ''shot_end_x'' = Some (JNum 1) \<and>
        flat_record two_events_table 1 ''shot_end_y'' = Some (JNum 2)"
    by simp
  moreover from ok all obtain out where "flatten two_events columns_to_remove = Inr out" by blast
  ultimately show ?thesis using short flatten_two_events by simp
qed

theorem empty_list_under_repeated_name:
  "str_contains ''location'' ''pass_location'' \<and>
   columns (renamed [[(''pass_location'', JList []),
                      (''pass'', JDict [(''location'', JList [JNum 3, JNum 4])])]])
     = [''pass_location'', ''pass_location''] \<and>
   flatten [[(''pass_location'', JList []),
             (''pass'', JDict [(''location'', JList [JNum 3, JNum 4])])]] [] =
     Inr \<lparr>index = 1, series = [(''pass_x'', [JNull]), (''pass_y'', [JNull])]\<rparr>"
  by code_simp

end
